theory Spec2Isabelle
  imports Main "HOL-Library.Word"
begin

section \<open>GitHub Sync Pro: the reconciliation engine of main.js\<close>

text \<open>
  A shallow embedding of \<^verbatim>\<open>.obsidian/plugins/github-sync-pro/main.js\<close>: the transfer codec
  (\<^verbatim>\<open>arrayBufferToBase64\<close>, \<^verbatim>\<open>base64ToArrayBuffer\<close>), the exclusion matcher
  (\<^verbatim>\<open>isExcluded\<close>), the three strategies (\<^verbatim>\<open>executePush\<close>, \<^verbatim>\<open>executePull\<close>,
  \<^verbatim>\<open>executeMerge\<close>) with their transfer helpers, and the entry point \<^verbatim>\<open>sync\<close>.

  A JavaScript string is a sequence of 16-bit code units, a byte buffer a sequence of
  8-bit values. Exceptions are values of a sum type (\<open>Inl\<close> the error); the effects of
  the asynchronous calls are made explicit by passing a world state through them.
\<close>

subsection \<open>Strings, bytes and errors\<close>

type_synonym jchar = "16 word"
type_synonym jstring = "jchar list"
type_synonym bytes = "8 word list"

text \<open>A string literal of the source, as code units.\<close>

definition js :: "string \<Rightarrow> jstring" where
  "js s = map (\<lambda>c. of_nat (of_char c)) s"

datatype js_error = InvalidCharacterError | SyntaxError | TypeError | HttpError | StorageError

subsection \<open>The transfer codec (main.js, lines 227-239)\<close>

text \<open>
  \<^verbatim>\<open>btoa\<close> and \<^verbatim>\<open>atob\<close> are functions of the host platform, not of this repository.
  They are modelled after their standard definition: \<^verbatim>\<open>btoa\<close> throws on a code unit above
  0xFF and otherwise encodes the bytes in Base64 (RFC 4648, with \<^verbatim>\<open>=\<close> padding);
  \<^verbatim>\<open>atob\<close> is the forgiving decoder: it drops ASCII whitespace, removes one or two
  trailing \<^verbatim>\<open>=\<close> when the length is a multiple of four, throws when the remaining length is
  1 modulo 4 or a character is outside the alphabet, and discards the unused low bits of
  a final partial group.
\<close>

definition b64_alphabet :: jstring where
  "b64_alphabet = js ''ABCDEFGHIJKLMNOPQRSTUVWXYZabcdefghijklmnopqrstuvwxyz0123456789+/''"

definition b64_char :: "nat \<Rightarrow> jchar" where
  "b64_char k = b64_alphabet ! (k mod 64)"

fun index_of :: "'a \<Rightarrow> 'a list \<Rightarrow> nat option" where
  "index_of x [] = None"
| "index_of x (y # ys) = (if x = y then Some 0 else map_option Suc (index_of x ys))"

definition b64_index :: "jchar \<Rightarrow> nat option" where
  "b64_index c = index_of c b64_alphabet"

definition pad_char :: jchar where
  "pad_char = 61"

text \<open>
  Three bytes \<open>a b c\<close> are the 24 bits \<open>a * 65536 + b * 256 + c\<close>, cut into four 6-bit
  values; a final group of one or two bytes is filled with zero bits and padded.
\<close>

fun b64_encode :: "bytes \<Rightarrow> jstring" where
  "b64_encode (a # b # c # rest) =
     b64_char (unat a div 4)
     # b64_char ((unat a mod 4) * 16 + unat b div 16)
     # b64_char ((unat b mod 16) * 4 + unat c div 64)
     # b64_char (unat c mod 64)
     # b64_encode rest"
| "b64_encode [a, b] =
     [b64_char (unat a div 4),
      b64_char ((unat a mod 4) * 16 + unat b div 16),
      b64_char ((unat b mod 16) * 4),
      pad_char]"
| "b64_encode [a] =
     [b64_char (unat a div 4),
      b64_char ((unat a mod 4) * 16),
      pad_char, pad_char]"
| "b64_encode [] = []"

definition btoa :: "jstring \<Rightarrow> js_error + jstring" where
  "btoa s = (if \<exists>c \<in> set s. 255 < c then Inl InvalidCharacterError
             else Inr (b64_encode (map ucast s)))"

definition ascii_whitespace :: "jchar \<Rightarrow> bool" where
  "ascii_whitespace c \<longleftrightarrow> c = 9 \<or> c = 10 \<or> c = 12 \<or> c = 13 \<or> c = 32"

definition strip_padding :: "jstring \<Rightarrow> jstring" where
  "strip_padding d =
     (if length d mod 4 = 0 \<and> d \<noteq> [] \<and> last d = pad_char then
        (if butlast d \<noteq> [] \<and> last (butlast d) = pad_char then butlast (butlast d)
         else butlast d)
      else d)"

fun b64_decode :: "nat list \<Rightarrow> bytes" where
  "b64_decode (p # q # r # s # rest) =
     of_nat (p * 4 + q div 16)
     # of_nat ((q mod 16) * 16 + r div 4)
     # of_nat ((r mod 4) * 64 + s)
     # b64_decode rest"
| "b64_decode [p, q, r] = [of_nat (p * 4 + q div 16), of_nat ((q mod 16) * 16 + r div 4)]"
| "b64_decode [p, q] = [of_nat (p * 4 + q div 16)]"
| "b64_decode [p] = []"
| "b64_decode [] = []"

definition atob :: "jstring \<Rightarrow> js_error + jstring" where
  "atob data =
     (let d = strip_padding (filter (\<lambda>c. \<not> ascii_whitespace c) data) in
      if length d mod 4 = 1 then Inl InvalidCharacterError
      else case those (map b64_index d) of
             None \<Rightarrow> Inl InvalidCharacterError
           | Some ss \<Rightarrow> Inr (map ucast (b64_decode ss)))"

text \<open>
  The white-space class of a JavaScript regular expression (backslash \<^verbatim>\<open>s\<close>): the
  white space and line terminator code units.
\<close>

definition regex_space :: "jchar \<Rightarrow> bool" where
  "regex_space c \<longleftrightarrow>
     c = 9 \<or> c = 10 \<or> c = 11 \<or> c = 12 \<or> c = 13 \<or> c = 32 \<or> c = 0xA0 \<or> c = 0x1680
     \<or> (0x2000 \<le> c \<and> c \<le> 0x200A) \<or> c = 0x2028 \<or> c = 0x2029 \<or> c = 0x202F
     \<or> c = 0x205F \<or> c = 0x3000 \<or> c = 0xFEFF"

text \<open>
  \<^verbatim>\<open>arrayBufferToBase64\<close>: one code unit per byte (\<^verbatim>\<open>String.fromCharCode\<close>), then
  \<^verbatim>\<open>btoa\<close>.
\<close>

definition arrayBufferToBase64 :: "bytes \<Rightarrow> js_error + jstring" where
  "arrayBufferToBase64 buffer = btoa (map ucast buffer)"

text \<open>
  \<^verbatim>\<open>base64ToArrayBuffer\<close>: the white-space class is removed globally, then \<^verbatim>\<open>atob\<close>, then each
  \<^verbatim>\<open>charCodeAt\<close> stored into a \<^verbatim>\<open>Uint8Array\<close> (which keeps the low eight bits).
\<close>

definition base64ToArrayBuffer :: "jstring \<Rightarrow> js_error + bytes" where
  "base64ToArrayBuffer base64 =
     (case atob (filter (\<lambda>c. \<not> regex_space c) base64) of
        Inl e \<Rightarrow> Inl e
      | Inr binary_string \<Rightarrow> Inr (map ucast binary_string))"

text \<open>Auxiliary notions for the proofs about the codec.\<close>

definition b64_codes :: "nat list" where
  "b64_codes = map of_char ''ABCDEFGHIJKLMNOPQRSTUVWXYZabcdefghijklmnopqrstuvwxyz0123456789+/''"

fun sextets :: "bytes \<Rightarrow> nat list" where
  "sextets (a # b # c # rest) =
     (unat a div 4) # ((unat a mod 4) * 16 + unat b div 16)
     # ((unat b mod 16) * 4 + unat c div 64) # (unat c mod 64) # sextets rest"
| "sextets [a, b] = [unat a div 4, (unat a mod 4) * 16 + unat b div 16, (unat b mod 16) * 4]"
| "sextets [a] = [unat a div 4, (unat a mod 4) * 16]"
| "sextets [] = []"

fun padding :: "bytes \<Rightarrow> jstring" where
  "padding (a # b # c # rest) = padding rest"
| "padding [a, b] = [pad_char]"
| "padding [a] = [pad_char, pad_char]"
| "padding [] = []"

text \<open>
  \<open>inserted s t\<close>: the text \<open>t\<close> is \<open>s\<close> with spaces, newlines and tabs inserted at
  arbitrary positions.
\<close>

definition wrap_space :: "jchar \<Rightarrow> bool" where
  "wrap_space c \<longleftrightarrow> c = 32 \<or> c = 10 \<or> c = 9"

fun inserted :: "jstring \<Rightarrow> jstring \<Rightarrow> bool" where
  "inserted [] t = list_all wrap_space t"
| "inserted (c # s) [] = False"
| "inserted (c # s) (d # t) =
     ((c = d \<and> inserted s t) \<or> (wrap_space d \<and> inserted (c # s) t))"

subsection \<open>The exclusion matcher (main.js, lines 3-8 and 127-132)\<close>

definition DEFAULT_EXCLUDES :: "jstring list" where
  "DEFAULT_EXCLUDES =
     [js ''.git'', js ''.obsidian/workspace.json'', js ''.obsidian/workspace-mobile.json'',
      js ''node_modules'']"

definition star :: jchar where "star = 42"
definition dot :: jchar where "dot = 46"
definition slash :: jchar where "slash = 47"
definition caret :: jchar where "caret = 94"
definition dollar :: jchar where "dollar = 36"

text \<open>\<^verbatim>\<open>rule.replace(/\*/g, '.*')\<close>: every star becomes dot star, nothing else changes.\<close>

definition replace_star :: "jstring \<Rightarrow> jstring" where
  "replace_star rule = concat (map (\<lambda>c. if c = star then [dot, star] else [c]) rule)"

text \<open>
  The regular expression engine is the platform's. The model covers the patterns
  \<^verbatim>\<open>^ body $\<close> whose body is a sequence of single characters, each an ordinary character
  or the dot, each optionally followed by a star. A dot accepts every code unit but the
  four line terminators (the pattern has no flag). Every other pattern is reported as
  \<open>SyntaxError\<close>: the engine throws on some of them (an unbalanced parenthesis, say) and
  gives the others a meaning that this model does not cover (groups, classes, \<^verbatim>\<open>+\<close>,
  \<^verbatim>\<open>?\<close>, escapes).
\<close>

definition line_terminator :: "jchar \<Rightarrow> bool" where
  "line_terminator c \<longleftrightarrow> c = 0x0A \<or> c = 0x0D \<or> c = 0x2028 \<or> c = 0x2029"

definition syntax_char :: "jchar \<Rightarrow> bool" where
  "syntax_char c \<longleftrightarrow> c = 92 \<or> c \<in> set (js ''^$.*+?()[]{}|'')"

datatype atom = Lit jchar | AnyChar
datatype item = One atom | Many atom

definition atom_of :: "jchar \<Rightarrow> atom option" where
  "atom_of c = (if c = dot then Some AnyChar else if syntax_char c then None else Some (Lit c))"

fun parse_items :: "jstring \<Rightarrow> item list option" where
  "parse_items [] = Some []"
| "parse_items [c] = map_option (\<lambda>a. [One a]) (atom_of c)"
| "parse_items (c # d # rest) =
     (case atom_of c of
        None \<Rightarrow> None
      | Some a \<Rightarrow>
          if d = star then map_option ((#) (Many a)) (parse_items rest)
          else map_option ((#) (One a)) (parse_items (d # rest)))"

definition RegExp :: "jstring \<Rightarrow> js_error + item list" where
  "RegExp source =
     (case source of
        [] \<Rightarrow> Inl SyntaxError
      | c # rest \<Rightarrow>
          if c = caret \<and> rest \<noteq> [] \<and> last rest = dollar then
            (case parse_items (butlast rest) of
               None \<Rightarrow> Inl SyntaxError
             | Some items \<Rightarrow> Inr items)
          else Inl SyntaxError)"

fun atom_accepts :: "atom \<Rightarrow> jchar \<Rightarrow> bool" where
  "atom_accepts (Lit c) d = (d = c)"
| "atom_accepts AnyChar d = (\<not> line_terminator d)"

text \<open>Whether the whole subject is in the language of the anchored pattern.\<close>

fun matches :: "item list \<Rightarrow> jstring \<Rightarrow> bool" where
  "matches [] s = (s = [])"
| "matches (One a # items) [] = False"
| "matches (One a # items) (c # s) = (atom_accepts a c \<and> matches items s)"
| "matches (Many a # items) [] = matches items []"
| "matches (Many a # items) (c # s) =
     (matches items (c # s) \<or> (atom_accepts a c \<and> matches (Many a # items) s))"

definition test :: "item list \<Rightarrow> jstring \<Rightarrow> bool" where
  "test regex s = matches regex s"

definition startsWith :: "jstring \<Rightarrow> jstring \<Rightarrow> bool" where
  "startsWith s searchString = (take (length searchString) s = searchString)"

text \<open>
  \<^verbatim>\<open>isExcluded\<close>: \<^verbatim>\<open>some\<close> visits the rules in order and stops at the first one that
  answers true; a rule whose pattern does not compile throws out of the whole call.
\<close>

fun isExcluded :: "jstring list \<Rightarrow> jstring \<Rightarrow> js_error + bool" where
  "isExcluded [] p = Inr False"
| "isExcluded (rule # rules) p =
     (case RegExp ([caret] @ replace_star rule @ [dollar]) of
        Inl e \<Rightarrow> Inl e
      | Inr regex \<Rightarrow>
          if test regex p \<or> startsWith p (rule @ [slash]) \<or> p = rule then Inr True
          else isExcluded rules p)"

text \<open>
  The matcher in the words of the specification: a star stands for zero or more of any
  character, every other character of a rule stands for itself, and the pattern is
  anchored at both ends; a path is excluded when it equals a rule, is nested under a
  rule, or matches a rule's pattern.
\<close>

fun wildcard_match :: "jstring \<Rightarrow> jstring \<Rightarrow> bool" where
  "wildcard_match [] s = (s = [])"
| "wildcard_match (r # rule) [] = (r = star \<and> wildcard_match rule [])"
| "wildcard_match (r # rule) (c # s) =
     (if r = star then wildcard_match rule (c # s) \<or> wildcard_match (r # rule) s
      else c = r \<and> wildcard_match rule s)"

definition spec_isExcluded :: "jstring list \<Rightarrow> jstring \<Rightarrow> bool" where
  "spec_isExcluded R P =
     list_ex (\<lambda>rule. P = rule \<or> startsWith P (rule @ [slash]) \<or> wildcard_match rule P) R"

text \<open>
  A rule is plain when the star is its only character with a meaning in a pattern; a
  path is single-line when it has no line terminator.
\<close>

definition plain_rule :: "jstring \<Rightarrow> bool" where
  "plain_rule rule \<longleftrightarrow> list_all (\<lambda>c. c = star \<or> \<not> syntax_char c) rule"

definition items_of :: "jstring \<Rightarrow> item list" where
  "items_of rule = map (\<lambda>c. if c = star then Many AnyChar else One (Lit c)) rule"

definition single_line :: "jstring \<Rightarrow> bool" where
  "single_line p \<longleftrightarrow> list_all (\<lambda>c. \<not> line_terminator c) p"

subsection \<open>Settings, remote repository and vault\<close>

text \<open>
  The settings that the engine reads (\<^verbatim>\<open>loadSettings\<close>, lines 20-31). The log, which the
  source keeps in the settings object too, is a field of the world below.
\<close>

record settings =
  token :: jstring
  repo :: jstring
  branch :: jstring
  excludedRules :: "jstring list"

text \<open>An entry of the recursive tree listing.\<close>

datatype tree_item = TreeItem (path: jstring) (type: jstring) (sha: jstring)

text \<open>
  The calls of \<^verbatim>\<open>apiRequest\<close> that the engine makes, without the fixed parts of the URL
  (host, repository, branch): the recursive tree listing, and the read, the create-or-update
  (path, Base64 content, optional \<^verbatim>\<open>sha\<close>) and the delete (path, \<^verbatim>\<open>sha\<close>) of one file.
\<close>

datatype request =
    TreeGet
  | ContentsGet jstring
  | ContentsPut jstring jstring "jstring option"
  | ContentsDelete jstring jstring

text \<open>The \<^verbatim>\<open>json\<close> of a response, as far as the engine looks into it.\<close>

datatype json = TreeJson "tree_item list" | ContentJson jstring | OtherJson

text \<open>The calls of the vault adapter.\<close>

datatype adapter_call =
    ListDir jstring
  | ReadBinary jstring
  | Exists jstring
  | Mkdir jstring
  | WriteBinary jstring bytes

datatype event = Request request | Adapter adapter_call

text \<open>
  What \<^verbatim>\<open>adapter.list\<close> answers for a folder: the paths of its files, and its folders,
  each with its own listing.
\<close>

datatype dir = Dir "jstring list" "(jstring \<times> dir) list"

text \<open>The messages of \<^verbatim>\<open>addLog\<close> and \<^verbatim>\<open>Notice\<close>, one constructor for each text.\<close>

datatype log_msg =
    LogStart jstring
  | LogPushing
  | LogUploaded jstring
  | LogUploadFailed jstring js_error
  | LogDeleted jstring
  | LogDeleteFailed jstring
  | LogPulling
  | LogNewUpload jstring
  | LogLocalUpdated jstring
  | LogDownloadFailed jstring
  | LogDone
  | LogError js_error

datatype notice = CheckConfig | SyncDone

text \<open>
  The world of a run. Modelled from the spec: the remote provider and the local storage
  are external collaborators (sections 4.6 and 6), so their state is what the
  specification says of them.
  \<^item> \<open>remote\<close>: the blobs of the branch by path; the token of a blob is \<open>blob_sha\<close> of its
    content. \<open>tree\<close> is the answer to the recursive tree listing.
  \<^item> \<open>files\<close> and \<open>folders\<close>: the vault; \<open>vault\<close> is the answer of \<^verbatim>\<open>adapter.list\<close>.
  \<^item> \<open>net_faults\<close>, \<open>disk_faults\<close>: one flag for each coming remote request, respectively
    adapter call; a set flag makes that call fail whatever the state (network error,
    permission error, storage error). An exhausted list means no more faults.
  \<^item> \<open>calls\<close>: every call made so far, in order. \<open>logs\<close>, \<open>notices\<close>: what the user sees.
\<close>

record world =
  remote :: "jstring \<rightharpoonup> bytes"
  blob_sha :: "bytes \<Rightarrow> jstring"
  tree :: "tree_item list"
  files :: "jstring \<rightharpoonup> bytes"
  folders :: "jstring set"
  vault :: dir
  net_faults :: "bool list"
  disk_faults :: "bool list"
  calls :: "event list"
  logs :: "log_msg list"
  notices :: "notice list"

subsection \<open>Asynchronous calls that may throw\<close>

type_synonym 'a io = "world \<Rightarrow> (js_error + 'a) \<times> world"

definition ret :: "'a \<Rightarrow> 'a io" where
  "ret x w = (Inr x, w)"

text \<open>A computation without effect that returns or throws.\<close>

definition lift :: "js_error + 'a \<Rightarrow> 'a io" where
  "lift r w = (r, w)"

text \<open>A statement that cannot throw.\<close>

definition effect :: "(world \<Rightarrow> world) \<Rightarrow> unit io" where
  "effect f w = (Inr (), f w)"

text \<open>\<^verbatim>\<open>const x = await m; f(x)\<close>: an exception of \<open>m\<close> skips \<open>f\<close>.\<close>

definition await :: "'a io \<Rightarrow> ('a \<Rightarrow> 'b io) \<Rightarrow> 'b io" where
  "await m f w = (case m w of (Inl e, w1) \<Rightarrow> (Inl e, w1) | (Inr x, w1) \<Rightarrow> f x w1)"

text \<open>\<^verbatim>\<open>try { body } catch (e) { handler(e) }\<close>.\<close>

definition try_catch :: "'a io \<Rightarrow> (js_error \<Rightarrow> 'a io) \<Rightarrow> 'a io" where
  "try_catch body handler w =
     (case body w of (Inl e, w1) \<Rightarrow> handler e w1 | (Inr x, w1) \<Rightarrow> (Inr x, w1))"

text \<open>
  \<^verbatim>\<open>for (const x of xs) { body(x) }\<close>: sequential, and an exception of one round ends the
  loop. A \<^verbatim>\<open>continue\<close> is a round that returns at once.
\<close>

fun for_each :: "'a list \<Rightarrow> ('a \<Rightarrow> unit io) \<Rightarrow> unit io" where
  "for_each [] body = ret ()"
| "for_each (x # xs) body = await (body x) (\<lambda>_. for_each xs body)"

subsection \<open>The remote provider\<close>

definition take_fault :: "bool list \<Rightarrow> bool \<times> bool list" where
  "take_fault fs = (case fs of [] \<Rightarrow> (False, []) | f # rest \<Rightarrow> (f, rest))"

text \<open>
  The provider returns file content in Base64, in lines of 60 characters, and reads the
  content of an upload with a Base64 decoder.
\<close>

fun wrap60 :: "jstring \<Rightarrow> jstring" where
  "wrap60 s = (if length s \<le> 60 then s @ [10] else take 60 s @ [10] @ wrap60 (drop 60 s))"

definition github_encode :: "bytes \<Rightarrow> jstring" where
  "github_encode c = wrap60 (b64_encode c)"

definition github_decode :: "jstring \<Rightarrow> bytes option" where
  "github_decode s = (case atob s of Inl e \<Rightarrow> None | Inr b \<Rightarrow> Some (map ucast b))"

text \<open>
  Modelled from the spec (section 4.6): an upload with a token must name the current
  token of the path, an upload without a token creates only if the path does not exist,
  and a delete must name the current token; otherwise the call fails. A read fails when
  the path does not exist.
\<close>

fun github :: "request \<Rightarrow> json io" where
  "github TreeGet w = (Inr (TreeJson (tree w)), w)"
| "github (ContentsGet p) w =
     (case remote w p of
        None \<Rightarrow> (Inl HttpError, w)
      | Some c \<Rightarrow> (Inr (ContentJson (github_encode c)), w))"
| "github (ContentsPut p content s) w =
     (case github_decode content of
        None \<Rightarrow> (Inl HttpError, w)
      | Some c \<Rightarrow>
          if map_option (blob_sha w) (remote w p) = s
          then (Inr OtherJson, w\<lparr>remote := (remote w)(p \<mapsto> c)\<rparr>)
          else (Inl HttpError, w))"
| "github (ContentsDelete p s) w =
     (if map_option (blob_sha w) (remote w p) = Some s
      then (Inr OtherJson, w\<lparr>remote := (remote w)(p := None)\<rparr>)
      else (Inl HttpError, w))"

text \<open>
  \<^verbatim>\<open>apiRequest\<close> (lines 80-97): the request is sent; a failure of the transport or an
  error status is rethrown as an \<^verbatim>\<open>Error\<close>.
\<close>

definition apiRequest :: "request \<Rightarrow> json io" where
  "apiRequest r w =
     (let (bad, rest) = take_fault (net_faults w);
          w1 = w\<lparr>net_faults := rest, calls := calls w @ [Request r]\<rparr>
      in if bad then (Inl HttpError, w1) else github r w1)"

subsection \<open>The vault adapter\<close>

definition adapter_step :: "adapter_call \<Rightarrow> world \<Rightarrow> bool \<times> world" where
  "adapter_step c w =
     (let (bad, rest) = take_fault (disk_faults w)
      in (bad, w\<lparr>disk_faults := rest, calls := calls w @ [Adapter c]\<rparr>))"

definition readBinary :: "jstring \<Rightarrow> bytes io" where
  "readBinary p w =
     (case adapter_step (ReadBinary p) w of
        (True, w1) \<Rightarrow> (Inl StorageError, w1)
      | (False, w1) \<Rightarrow>
          (case files w1 p of None \<Rightarrow> (Inl StorageError, w1) | Some c \<Rightarrow> (Inr c, w1)))"

definition exists :: "jstring \<Rightarrow> bool io" where
  "exists p w =
     (case adapter_step (Exists p) w of
        (True, w1) \<Rightarrow> (Inl StorageError, w1)
      | (False, w1) \<Rightarrow> (Inr (files w1 p \<noteq> None \<or> p \<in> folders w1), w1))"

definition mkdir :: "jstring \<Rightarrow> unit io" where
  "mkdir p w =
     (case adapter_step (Mkdir p) w of
        (True, w1) \<Rightarrow> (Inl StorageError, w1)
      | (False, w1) \<Rightarrow> (Inr (), w1\<lparr>folders := insert p (folders w1)\<rparr>))"

definition writeBinary :: "jstring \<Rightarrow> bytes \<Rightarrow> unit io" where
  "writeBinary p content w =
     (case adapter_step (WriteBinary p content) w of
        (True, w1) \<Rightarrow> (Inl StorageError, w1)
      | (False, w1) \<Rightarrow> (Inr (), w1\<lparr>files := (files w1)(p \<mapsto> content)\<rparr>))"

text \<open>\<^verbatim>\<open>adapter.list(path)\<close>, answered from the listing \<open>d\<close> of that folder.\<close>

definition list_dir :: "jstring \<Rightarrow> dir \<Rightarrow> (jstring list \<times> (jstring \<times> dir) list) io" where
  "list_dir p d w =
     (case adapter_step (ListDir p) w of
        (True, w1) \<Rightarrow> (Inl StorageError, w1)
      | (False, w1) \<Rightarrow> (case d of Dir fs ds \<Rightarrow> (Inr (fs, ds), w1)))"

subsection \<open>Log and notices (main.js, lines 35-43)\<close>

text \<open>
  \<^verbatim>\<open>addLog\<close>: the message goes to the front and, when the log then has more than ten
  entries, the last one is dropped. The time stamp, the saving of the settings and the
  refresh of the settings tab are left out.
\<close>

definition addLog :: "log_msg \<Rightarrow> world \<Rightarrow> world" where
  "addLog message w =
     (let l = message # logs w
      in w\<lparr>logs := (if length l > 10 then butlast l else l)\<rparr>)"

definition Notice :: "notice \<Rightarrow> world \<Rightarrow> world" where
  "Notice n w = w\<lparr>notices := notices w @ [n]\<rparr>"

subsection \<open>Enumerating the vault (main.js, lines 60-78)\<close>

text \<open>
  \<^verbatim>\<open>getAllFilesRecursively\<close>: the files of the folder that are not excluded, then, for
  each folder that is not excluded, its files recursively. The third argument is the
  listing that \<^verbatim>\<open>adapter.list(path)\<close> answers with; the folders of the answer are those of
  this listing, over which the recursion runs.
\<close>

fun keep_included :: "jstring list \<Rightarrow> jstring list \<Rightarrow> js_error + jstring list" where
  "keep_included rules [] = Inr []"
| "keep_included rules (filePath # rest) =
     (case isExcluded rules filePath of
        Inl e \<Rightarrow> Inl e
      | Inr excluded \<Rightarrow>
          (case keep_included rules rest of
             Inl e \<Rightarrow> Inl e
           | Inr kept \<Rightarrow> Inr (if excluded then kept else filePath # kept)))"

fun getAllFilesRecursively :: "settings \<Rightarrow> jstring \<Rightarrow> dir \<Rightarrow> jstring list io"
  and visit_folders :: "settings \<Rightarrow> (jstring \<times> dir) list \<Rightarrow> jstring list io"
where
  "getAllFilesRecursively st p (Dir fs ds) =
     await (list_dir p (Dir fs ds)) (\<lambda>res.
     await (lift (keep_included (excludedRules st) (fst res))) (\<lambda>kept.
     await (visit_folders st ds) (\<lambda>subFiles.
     ret (kept @ subFiles))))"
| "visit_folders st [] = ret []"
| "visit_folders st ((dirPath, d) # rest) =
     await (lift (isExcluded (excludedRules st) dirPath)) (\<lambda>excluded.
     await (if excluded then ret [] else getAllFilesRecursively st dirPath d) (\<lambda>subFiles.
     await (visit_folders st rest) (\<lambda>more.
     ret (subFiles @ more))))"

subsection \<open>Single transfers (main.js, lines 195-225)\<close>

text \<open>\<^verbatim>\<open>sha || undefined\<close>: \<^verbatim>\<open>null\<close> and the empty string both leave the field out.\<close>

definition or_undefined :: "jstring option \<Rightarrow> jstring option" where
  "or_undefined s = (case s of None \<Rightarrow> None | Some t \<Rightarrow> if t = [] then None else Some t)"

definition uploadFile :: "jstring \<Rightarrow> bytes \<Rightarrow> jstring option \<Rightarrow> unit io" where
  "uploadFile p content s =
     await (lift (arrayBufferToBase64 content)) (\<lambda>base64.
     await (apiRequest (ContentsPut p base64 (or_undefined s))) (\<lambda>_.
     effect (addLog (LogNewUpload p))))"

text \<open>\<^verbatim>\<open>path.split('/')\<close>.\<close>

fun split :: "jchar \<Rightarrow> jstring \<Rightarrow> jstring list" where
  "split sep [] = [[]]"
| "split sep (c # s) =
     (if c = sep then [] # split sep s
      else (case split sep s of [] \<Rightarrow> [[c]] | x # xs \<Rightarrow> (c # x) # xs))"

text \<open>
  The loop over \<^verbatim>\<open>pathParts\<close> without its last element: \<open>cur\<close> grows by one segment a
  round, and the folder is made when \<^verbatim>\<open>exists\<close> answers false.
\<close>

fun make_folders :: "jstring \<Rightarrow> jstring list \<Rightarrow> unit io" where
  "make_folders cur [] = ret ()"
| "make_folders cur (part # parts) =
     (let cur' = cur @ (if cur \<noteq> [] then [slash] else []) @ part in
      await (exists cur') (\<lambda>present.
      await (if present then ret () else mkdir cur') (\<lambda>_.
      make_folders cur' parts)))"

definition content_of :: "json \<Rightarrow> js_error + jstring" where
  "content_of j = (case j of ContentJson s \<Rightarrow> Inr s | _ \<Rightarrow> Inl TypeError)"

definition downloadFile :: "jstring \<Rightarrow> unit io" where
  "downloadFile p =
     try_catch
       (await (apiRequest (ContentsGet p)) (\<lambda>res.
        await (lift (case content_of res of Inl e \<Rightarrow> Inl e | Inr s \<Rightarrow> base64ToArrayBuffer s))
          (\<lambda>content.
        let pathParts = split slash p in
        await (if length pathParts > 1 then make_folders [] (butlast pathParts) else ret ())
          (\<lambda>_.
        await (writeBinary p content) (\<lambda>_.
        effect (addLog (LogLocalUpdated p)))))))
       (\<lambda>e. effect (addLog (LogDownloadFailed p)))"

subsection \<open>The three strategies (main.js, lines 134-193)\<close>

text \<open>
  \<^verbatim>\<open>remotes.filter(r => !localPaths.includes(r.path) && !this.isExcluded(r.path))\<close>:
  the matcher is asked only for the paths that are not local, and its exception leaves
  the filter.
\<close>

fun remote_only :: "jstring list \<Rightarrow> jstring list \<Rightarrow> tree_item list \<Rightarrow> js_error + tree_item list"
where
  "remote_only rules localPaths [] = Inr []"
| "remote_only rules localPaths (r # rs) =
     (case (if path r \<in> set localPaths then Inr False
            else map_sum id Not (isExcluded rules (path r))) of
        Inl e \<Rightarrow> Inl e
      | Inr keep \<Rightarrow>
          (case remote_only rules localPaths rs of
             Inl e \<Rightarrow> Inl e
           | Inr kept \<Rightarrow> Inr (if keep then r # kept else kept)))"

definition executePush :: "settings \<Rightarrow> jstring list \<Rightarrow> tree_item list \<Rightarrow> unit io" where
  "executePush st localPaths remotes =
     await (effect (addLog LogPushing)) (\<lambda>_.
     await (for_each localPaths (\<lambda>p.
       await (readBinary p) (\<lambda>content.
       let remoteMatch = find (\<lambda>r. path r = p) remotes in
       try_catch
         (await (lift (arrayBufferToBase64 content)) (\<lambda>base64.
          await (apiRequest (ContentsPut p base64 (map_option sha remoteMatch))) (\<lambda>_.
          effect (addLog (LogUploaded p)))))
         (\<lambda>e. effect (addLog (LogUploadFailed p e)))))) (\<lambda>_.
     await (lift (remote_only (excludedRules st) localPaths remotes)) (\<lambda>toDelete.
     for_each toDelete (\<lambda>rFile.
       try_catch
         (await (apiRequest (ContentsDelete (path rFile) (sha rFile))) (\<lambda>_.
          effect (addLog (LogDeleted (path rFile)))))
         (\<lambda>e. effect (addLog (LogDeleteFailed (path rFile))))))))"

definition executePull :: "settings \<Rightarrow> tree_item list \<Rightarrow> unit io" where
  "executePull st remotes =
     await (effect (addLog LogPulling)) (\<lambda>_.
     for_each remotes (\<lambda>rFile.
       await (lift (isExcluded (excludedRules st) (path rFile))) (\<lambda>excluded.
       if excluded then ret () else downloadFile (path rFile))))"

definition executeMerge :: "settings \<Rightarrow> jstring list \<Rightarrow> tree_item list \<Rightarrow> unit io" where
  "executeMerge st localPaths remotes =
     await (for_each localPaths (\<lambda>p.
       let rMatch = find (\<lambda>r. path r = p) remotes in
       if rMatch = None then
         await (readBinary p) (\<lambda>content. uploadFile p content None)
       else ret ())) (\<lambda>_.
     for_each remotes (\<lambda>rFile.
       await (lift (isExcluded (excludedRules st) (path rFile))) (\<lambda>excluded.
       if excluded then ret ()
       else if path rFile \<notin> set localPaths then downloadFile (path rFile)
       else ret ())))"

subsection \<open>The entry point (main.js, lines 99-125)\<close>

definition tree_of :: "json \<Rightarrow> tree_item list" where
  "tree_of j = (case j of TreeJson t \<Rightarrow> t | _ \<Rightarrow> [])"

text \<open>The choice of the strategy (lines 113-119).\<close>

definition run_mode :: "settings \<Rightarrow> jstring \<Rightarrow> jstring list \<Rightarrow> tree_item list \<Rightarrow> unit io" where
  "run_mode st mode localFilePaths remoteFiles =
     (if mode = js ''local_to_remote'' then executePush st localFilePaths remoteFiles
      else if mode = js ''remote_to_local'' then executePull st remoteFiles
      else executeMerge st localFilePaths remoteFiles)"

text \<open>The body of the \<^verbatim>\<open>try\<close> block (lines 105-121).\<close>

definition sync_try :: "settings \<Rightarrow> jstring \<Rightarrow> unit io" where
  "sync_try st mode =
     await (apiRequest TreeGet) (\<lambda>treeRes.
     let remoteFiles = filter (\<lambda>i. type i = js ''blob'') (tree_of treeRes) in
     (\<lambda>w. await (getAllFilesRecursively st [] (vault w)) (\<lambda>localFilePaths.
     await (run_mode st mode localFilePaths remoteFiles) (\<lambda>_.
     await (effect (addLog LogDone)) (\<lambda>_.
     effect (Notice SyncDone)))) w))"

definition sync :: "settings \<Rightarrow> jstring \<Rightarrow> world \<Rightarrow> world" where
  "sync st mode w =
     (if token st = [] \<or> repo st = [] then Notice CheckConfig w
      else snd (try_catch (sync_try st mode) (\<lambda>err. effect (addLog (LogError err)))
                  (addLog (LogStart mode) w)))"

subsection \<open>Reading a run\<close>


definition excluded :: "jstring list \<Rightarrow> jstring \<Rightarrow> bool" where
  "excluded rules p = (isExcluded rules p = Inr True)"


text \<open>
  The transfer operations of a run: an upload with its optional token, a download, a
  delete with its token.
\<close>

datatype op = Upload jstring "jstring option" | Download jstring | Delete jstring jstring

fun op_of :: "event \<Rightarrow> op option" where
  "op_of (Request (ContentsPut p c s)) = Some (Upload p s)"
| "op_of (Request (ContentsGet p)) = Some (Download p)"
| "op_of (Request (ContentsDelete p s)) = Some (Delete p s)"
| "op_of _ = None"

definition ops :: "event list \<Rightarrow> op list" where
  "ops es = List.map_filter op_of es"

text \<open>The calls that a step from \<open>w\<close> to \<open>w'\<close> has added.\<close>

definition new_calls :: "world \<Rightarrow> world \<Rightarrow> event list" where
  "new_calls w w' = drop (length (calls w)) (calls w')"

subsection \<open>The footprint of a run\<close>

text \<open>The path that a call may change: on the remote, by deletion, in the vault.\<close>

fun writes_remote :: "event \<Rightarrow> jstring option" where
  "writes_remote (Request (ContentsPut p c s)) = Some p"
| "writes_remote (Request (ContentsDelete p s)) = Some p"
| "writes_remote _ = None"

fun deletes_remote :: "event \<Rightarrow> jstring option" where
  "deletes_remote (Request (ContentsDelete p s)) = Some p"
| "deletes_remote _ = None"

fun writes_local :: "event \<Rightarrow> jstring option" where
  "writes_local (Adapter (WriteBinary p c)) = Some p"
| "writes_local _ = None"

text \<open>
  \<open>footprint w w'\<close>: the calls only grow, a remote path changes only by an upload or a
  delete of that path and disappears only by a delete, a file changes only by a write of
  that path and never disappears, and the listings stay as they are.
\<close>

definition footprint :: "world \<Rightarrow> world \<Rightarrow> bool" where
  "footprint w w' \<longleftrightarrow>
     calls w' = calls w @ new_calls w w'
     \<and> (\<forall>p. remote w' p \<noteq> remote w p \<longrightarrow> Some p \<in> writes_remote ` set (new_calls w w'))
     \<and> (\<forall>p. remote w p \<noteq> None \<and> remote w' p = None
            \<longrightarrow> Some p \<in> deletes_remote ` set (new_calls w w'))
     \<and> (\<forall>p. files w' p \<noteq> files w p \<longrightarrow> Some p \<in> writes_local ` set (new_calls w w'))
     \<and> (\<forall>p. files w p \<noteq> None \<longrightarrow> files w' p \<noteq> None)
     \<and> blob_sha w' = blob_sha w \<and> tree w' = tree w \<and> vault w' = vault w"

text \<open>\<open>keeps Q m\<close>: from every world, \<open>m\<close> has a footprint and makes only calls in \<open>Q\<close>.\<close>

definition keeps :: "(event \<Rightarrow> bool) \<Rightarrow> 'a io \<Rightarrow> bool" where
  "keeps Q m \<longleftrightarrow>
     (\<forall>w. footprint w (snd (m w)) \<and> list_all Q (new_calls w (snd (m w))))"

subsection \<open>Auxiliary notions for the proofs\<close>

text \<open>The entry point as one computation: \<open>sync\<close> is its final world.\<close>

definition sync_io :: "settings \<Rightarrow> jstring \<Rightarrow> unit io" where
  "sync_io st mode =
     (if token st = [] \<or> repo st = [] then effect (Notice CheckConfig)
      else await (effect (addLog (LogStart mode)))
             (\<lambda>_. try_catch (sync_try st mode) (\<lambda>err. effect (addLog (LogError err)))))"





text \<open>
  \<open>calm w w'\<close>: the remote and the coming network answers are as before, and no adapter
  fault is pending.
\<close>

definition calm :: "world \<Rightarrow> world \<Rightarrow> bool" where
  "calm w w' \<longleftrightarrow> remote w' = remote w \<and> net_faults w' = net_faults w \<and> disk_faults w' = []"


subsection \<open>The scenario of the specification\<close>

text \<open>
  Local files \<^verbatim>\<open>notes/a.md\<close> and \<^verbatim>\<open>notes/b.md\<close>, remote blobs \<^verbatim>\<open>notes/a.md\<close> with
  token \<^verbatim>\<open>tokenA\<close> and \<^verbatim>\<open>notes/c.md\<close> with token \<^verbatim>\<open>tokenC\<close>, no exclusion rule, no
  fault. The tree listing also has the entry of the folder, which is not a blob.
\<close>

definition scenario_settings :: settings where
  "scenario_settings =
     \<lparr>token = js ''secret'', repo = js ''user/vault'', branch = js ''main'', excludedRules = []\<rparr>"

definition scenario_local :: "jstring list" where
  "scenario_local = [js ''notes/a.md'', js ''notes/b.md'']"

definition scenario_remote :: "tree_item list" where
  "scenario_remote =
     [TreeItem (js ''notes/a.md'') (js ''blob'') (js ''tokenA''),
      TreeItem (js ''notes/c.md'') (js ''blob'') (js ''tokenC'')]"

definition scenario_world :: world where
  "scenario_world =
     \<lparr>remote = [js ''notes/a.md'' \<mapsto> [1], js ''notes/c.md'' \<mapsto> [3]],
      blob_sha = (\<lambda>c. if c = [1] then js ''tokenA'' else if c = [3] then js ''tokenC''
                       else js ''other''),
      tree = TreeItem (js ''notes'') (js ''tree'') (js ''tokenN'') # scenario_remote,
      files = [js ''notes/a.md'' \<mapsto> [7], js ''notes/b.md'' \<mapsto> [8]],
      folders = {js ''notes''},
      vault = Dir [] [(js ''notes'', Dir scenario_local [])],
      net_faults = [], disk_faults = [], calls = [], logs = [], notices = []\<rparr>"

text \<open>The same world in which the second remote request of the run fails.\<close>

definition flaky_world :: world where
  "flaky_world = scenario_world\<lparr>net_faults := [False, True]\<rparr>"

section \<open>Properties\<close>

declare wrap60.simps [simp del]

subsection \<open>The codec round-trips\<close>

lemma unat_byte_lt: "unat (a :: 8 word) < 256"
  using unsigned_less[of a, where ?'a=nat] by simp

lemma alphabet_nat: "list_all (\<lambda>n. 43 \<le> n \<and> n \<le> 122 \<and> n \<noteq> 61) b64_codes"
  by (simp add: b64_codes_def)

lemma codes_distinct: "distinct b64_codes"
  by (simp add: b64_codes_def)

lemma unat_of_small: "n \<le> 122 \<Longrightarrow> unat (of_nat n :: 16 word) = n"
  by (simp add: unat_of_nat)

lemma alphabet_as_nat: "b64_alphabet = map of_nat b64_codes"
  unfolding b64_alphabet_def js_def b64_codes_def by (simp only: list.map_comp comp_def)

lemma code_range: "n \<in> set b64_codes \<Longrightarrow> 43 \<le> n \<and> n \<le> 122 \<and> n \<noteq> 61"
  using alphabet_nat unfolding list_all_iff by blast

lemma alphabet_range:
  assumes "c \<in> set b64_alphabet"
  shows "43 \<le> unat c \<and> unat c \<le> 122 \<and> unat c \<noteq> 61"
proof -
  from assms have "c \<in> of_nat ` set b64_codes"
    unfolding alphabet_as_nat by (simp only: set_map)
  then obtain n where n: "n \<in> set b64_codes" and c: "c = of_nat n"
    by (rule imageE)
  from code_range[OF n] show ?thesis using c by (simp add: unat_of_small)
qed

lemma distinct_alphabet: "distinct b64_alphabet"
proof -
  have "inj_on (of_nat :: nat \<Rightarrow> 16 word) (set b64_codes)"
  proof (rule inj_onI)
    fix x y assume x: "x \<in> set b64_codes" and y: "y \<in> set b64_codes"
      and e: "(of_nat x :: 16 word) = of_nat y"
    from code_range[OF x] code_range[OF y]
    have u: "unat (of_nat x :: 16 word) = x" "unat (of_nat y :: 16 word) = y"
      by (simp_all add: unat_of_small)
    from e have "unat (of_nat x :: 16 word) = unat (of_nat y :: 16 word)"
      by (rule arg_cong)
    then show "x = y" unfolding u .
  qed
  with codes_distinct show ?thesis
    unfolding alphabet_as_nat by (simp add: distinct_map)
qed

lemma length_alphabet: "length b64_alphabet = 64"
  by (simp add: b64_alphabet_def js_def)

lemma index_of_nth: "distinct xs \<Longrightarrow> k < length xs \<Longrightarrow> index_of (xs ! k) xs = Some k"
proof (induction xs arbitrary: k)
  case Nil then show ?case by simp
next
  case (Cons x xs)
  show ?case
  proof (cases k)
    case 0 then show ?thesis by simp
  next
    case (Suc j)
    with Cons.prems have "xs ! j \<noteq> x" "j < length xs" "distinct xs" by auto
    with Cons.IH[of j] Suc show ?thesis by simp
  qed
qed

lemma b64_index_char: "k < 64 \<Longrightarrow> b64_index (b64_char k) = Some k"
  by (simp add: b64_index_def b64_char_def index_of_nth distinct_alphabet length_alphabet)

lemma b64_char_in: "b64_char k \<in> set b64_alphabet"
  by (simp add: b64_char_def length_alphabet)

lemma regex_space_unat: "regex_space c \<Longrightarrow> unat c < 43 \<or> 122 < unat c"
  unfolding regex_space_def by (auto simp: word_le_nat_alt)

lemma ascii_ws_unat: "ascii_whitespace c \<Longrightarrow> unat c < 43"
  unfolding ascii_whitespace_def by auto

lemma pad_plain: "\<not> regex_space pad_char \<and> \<not> ascii_whitespace pad_char \<and> pad_char \<le> 255"
  by (simp add: regex_space_def ascii_whitespace_def pad_char_def)

lemma b64_char_plain:
  "b64_char k \<noteq> pad_char \<and> \<not> regex_space (b64_char k) \<and> \<not> ascii_whitespace (b64_char k)"
  using alphabet_range[OF b64_char_in, of k] regex_space_unat[of "b64_char k"]
    ascii_ws_unat[of "b64_char k"]
  by (auto simp: pad_char_def)

lemma encode_decomp: "b64_encode B = map b64_char (sextets B) @ padding B"
  by (induction B rule: b64_encode.induct) simp_all

lemma padding_cases:
  "padding B = [] \<or> padding B = [pad_char] \<or> padding B = [pad_char, pad_char]"
  by (induction B rule: padding.induct) simp_all

lemma encode_plain:
  "c \<in> set (b64_encode B) \<Longrightarrow> \<not> regex_space c \<and> \<not> ascii_whitespace c"
  using padding_cases[of B] b64_char_plain pad_plain
  by (auto simp: encode_decomp)

lemma byte_div4: "x < 256 \<Longrightarrow> x div 4 < (64::nat)" by simp
lemma byte_div16: "x < 256 \<Longrightarrow> x div 16 < (16::nat)" by simp
lemma byte_div64: "x < 256 \<Longrightarrow> x div 64 < (4::nat)" by simp
lemma sext_mid1: "a < 4 \<Longrightarrow> b < 16 \<Longrightarrow> a * 16 + b < (64::nat)" by simp
lemma sext_mid2: "a < 16 \<Longrightarrow> b < 4 \<Longrightarrow> a * 4 + b < (64::nat)" by simp

lemma sextet_bounds:
  "unat (a::8 word) div 4 < 64"
  "unat (a::8 word) mod 4 * 16 + unat (b::8 word) div 16 < 64"
  "unat (b::8 word) mod 16 * 4 + unat (c::8 word) div 64 < 64"
  "unat (c::8 word) mod 64 < 64"
  "unat (a::8 word) mod 4 * 16 < 64"
  "unat (b::8 word) mod 16 * 4 < 64"
proof -
  show "unat a div 4 < 64" by (rule byte_div4[OF unat_byte_lt])
  show "unat a mod 4 * 16 + unat b div 16 < 64"
    by (rule sext_mid1[OF _ byte_div16[OF unat_byte_lt]]) simp
  show "unat b mod 16 * 4 + unat c div 64 < 64"
    by (rule sext_mid2[OF _ byte_div64[OF unat_byte_lt]]) simp
  show "unat c mod 64 < 64" by simp
  show "unat a mod 4 * 16 < 64" using sext_mid1[of "unat a mod 4" 0] by simp
  show "unat b mod 16 * 4 < 64" using sext_mid2[of "unat b mod 16" 0] by simp
qed

lemma sextets_lt: "k \<in> set (sextets B) \<Longrightarrow> k < 64"
proof (induction B arbitrary: k rule: sextets.induct)
  case (1 a b c rest)
  then show ?case using sextet_bounds by auto
next
  case (2 a b)
  then show ?case using sextet_bounds by auto
next
  case (3 a)
  then show ?case using sextet_bounds by auto
next
  case 4 then show ?case by simp
qed

lemma length_sextets_mod: "length (sextets B) mod 4 \<noteq> 1"
  by (induction B rule: sextets.induct) simp_all

lemma length_encode_mod: "length (b64_encode B) mod 4 = 0"
  by (induction B rule: b64_encode.induct) simp_all

lemma strip_padding_encode: "strip_padding (b64_encode B) = map b64_char (sextets B)"
proof -
  let ?s = "map b64_char (sextets B)"
  have nl: "?s \<noteq> [] \<Longrightarrow> last ?s \<noteq> pad_char"
    using b64_char_plain by (simp add: last_map)
  have len: "length (?s @ padding B) mod 4 = 0"
    using length_encode_mod[of B] by (simp only: encode_decomp)
  consider "padding B = []" | "padding B = [pad_char]" | "padding B = [pad_char, pad_char]"
    using padding_cases by blast
  then show ?thesis
  proof cases
    case 1
    then show ?thesis using nl by (auto simp: strip_padding_def encode_decomp)
  next
    case 2
    then show ?thesis using nl len by (auto simp: strip_padding_def encode_decomp)
  next
    case 3
    then show ?thesis using nl len
      by (auto simp: strip_padding_def encode_decomp butlast_append)
  qed
qed

lemma those_index_char:
  "(\<And>k. k \<in> set ks \<Longrightarrow> k < 64) \<Longrightarrow> those (map (b64_index \<circ> b64_char) ks) = Some ks"
  by (induction ks) (simp_all add: b64_index_char)

lemma div_step: "r < n \<Longrightarrow> (q * n + r) div n = (q::nat)" by simp
lemma mod_step: "r < n \<Longrightarrow> (q * n + r) mod n = (r::nat)" by simp

lemma join1:
  assumes "y < 256"
  shows "(x::nat) div 4 * 4 + (x mod 4 * 16 + y div 16) div 16 = x"
proof -
  have "(x mod 4 * 16 + y div 16) div 16 = x mod 4"
    using byte_div16[OF assms] by (rule div_step)
  then show ?thesis by simp
qed
lemma join2: 
  assumes "y < 256" "z < 256"
  shows "(x mod 4 * 16 + y div 16) mod 16 * 16 + (y mod 16 * 4 + z div 64) div 4 = (y::nat)"
proof -
  have a: "y div 16 < 16" "z div 64 < 4"
    using assms by (simp_all add: byte_div16 byte_div64)
  have "(x mod 4 * 16 + y div 16) mod 16 = y div 16" using a(1) by (rule mod_step)
  moreover have "(y mod 16 * 4 + z div 64) div 4 = y mod 16" using a(2) by (rule div_step)
  ultimately show ?thesis by simp
qed
lemma join3:
  assumes "z < 256"
  shows "(y mod 16 * 4 + z div 64) mod 4 * 64 + z mod 64 = (z::nat)"
proof -
  have "z div 64 < 4" using assms by (rule byte_div64)
  then have "(y mod 16 * 4 + z div 64) mod 4 = z div 64" by (rule mod_step)
  then show ?thesis by simp
qed
lemma join2': "y < 256 \<Longrightarrow> (x mod 4 * 16 + y div 16) mod 16 * 16 + (y mod 16 * 4) div 4 = (y::nat)"
  using join2[of y 0 x] by simp
lemma join1': "(x::nat) div 4 * 4 + (x mod 4 * 16) div 16 = x"
  by simp

lemma decode_sextets: "b64_decode (sextets B) = B"
proof (induction B rule: sextets.induct)
  case (1 a b c rest)
  have lt: "unat a < 256" "unat b < 256" "unat c < 256" by (rule unat_byte_lt)+
  note e = join1[OF lt(2), of "unat a"] join2[OF lt(2,3), of "unat a"] join3[OF lt(3), of "unat b"]
  have "b64_decode (sextets (a # b # c # rest))
      = of_nat (unat a) # of_nat (unat b) # of_nat (unat c) # b64_decode (sextets rest)"
    unfolding sextets.simps b64_decode.simps e ..
  with 1 show ?case by simp
next
  case (2 a b)
  have lt: "unat a < 256" "unat b < 256" by (rule unat_byte_lt)+
  note e = join1[OF lt(2), of "unat a"] join2'[OF lt(2), of "unat a"]
  have "b64_decode (sextets [a, b]) = [of_nat (unat a), of_nat (unat b)]"
    unfolding sextets.simps b64_decode.simps e ..
  then show ?case by simp
next
  case (3 a)
  have "b64_decode (sextets [a]) = [of_nat (unat a)]"
    unfolding sextets.simps b64_decode.simps join1' ..
  then show ?case by simp
next
  case 4 then show ?case by simp
qed

lemma ucast_byte_roundtrip: "(ucast (ucast (a :: 8 word) :: 16 word) :: 8 word) = a"
  by (rule ucast_up_ucast_id) (simp add: is_up)

lemma ucast_byte_le: "(ucast (a :: 8 word) :: 16 word) \<le> 255"
proof -
  have "uint (ucast a :: 16 word) = uint a" by (rule uint_up_ucast) (simp add: is_up)
  then have "nat (uint (ucast a :: 16 word)) = nat (uint a)" by (rule arg_cong)
  then have "unat (ucast a :: 16 word) = unat a" by (simp only: unat_eq_nat_uint)
  then show ?thesis using unat_byte_lt[of a] by (simp add: word_le_nat_alt)
qed

lemma atob_encode: "atob (b64_encode B) = Inr (map ucast B)"
proof -
  have f: "filter (\<lambda>c. \<not> ascii_whitespace c) (b64_encode B) = b64_encode B"
    using encode_plain by (simp add: filter_id_conv)
  show ?thesis
    unfolding atob_def f strip_padding_encode Let_def
    using length_sextets_mod[of B]
    by (simp add: those_index_char sextets_lt decode_sextets)
qed

lemma btoa_bytes: "btoa (map ucast (B :: bytes)) = Inr (b64_encode B)"
proof -
  have "\<not> (\<exists>c \<in> set (map ucast B :: jstring). 255 < c)"
    using ucast_byte_le by (auto simp: not_less)
  moreover have "map ucast (map ucast B :: jstring) = B"
    by (simp add: ucast_byte_roundtrip comp_def)
  ultimately show ?thesis unfolding btoa_def by simp
qed

lemma decode_filtered:
  assumes "filter (\<lambda>c. \<not> regex_space c) t = b64_encode B"
  shows "base64ToArrayBuffer t = Inr B"
  unfolding base64ToArrayBuffer_def assms atob_encode
  by (simp add: ucast_byte_roundtrip comp_def)

lemma inserted_filter:
  "inserted s t \<Longrightarrow> (\<And>c. c \<in> set s \<Longrightarrow> \<not> regex_space c)
    \<Longrightarrow> filter (\<lambda>c. \<not> regex_space c) t = s"
proof (induction s t rule: inserted.induct)
  case (1 t)
  have "wrap_space c \<Longrightarrow> regex_space c" for c
    by (auto simp: wrap_space_def regex_space_def)
  with 1 show ?case by (auto simp: list_all_iff filter_empty_conv)
next
  case (2 c s)
  then show ?case by simp
next
  case (3 c s d t)
  have w: "wrap_space d \<Longrightarrow> regex_space d"
    by (auto simp: wrap_space_def regex_space_def)
  from 3 show ?case using w by auto
qed

text \<open>
  C3. For every byte sequence \<open>B\<close>, encoding succeeds and decoding the encoded text
  yields exactly \<open>B\<close>: \<open>base64ToArrayBuffer (arrayBufferToBase64 B) = B\<close>.
\<close>

theorem codec_roundtrip:
  "\<exists>t. arrayBufferToBase64 B = Inr t \<and> base64ToArrayBuffer t = Inr B"
proof -
  have "arrayBufferToBase64 B = Inr (b64_encode B)"
    by (simp add: arrayBufferToBase64_def btoa_bytes)
  moreover have "base64ToArrayBuffer (b64_encode B) = Inr B"
    using encode_plain by (intro decode_filtered) (simp add: filter_id_conv)
  ultimately show ?thesis by blast
qed

text \<open>
  C9. For every byte sequence \<open>B\<close> and every text \<open>t\<close> obtained from the encoding of
  \<open>B\<close> by inserting spaces, newlines and tabs at arbitrary positions, decoding \<open>t\<close>
  returns exactly \<open>B\<close>.
\<close>

theorem decode_tolerates_whitespace:
  assumes "arrayBufferToBase64 B = Inr e" and "inserted e t"
  shows "base64ToArrayBuffer t = Inr B"
proof -
  have e: "e = b64_encode B"
    using assms(1) by (simp add: arrayBufferToBase64_def btoa_bytes)
  have "filter (\<lambda>c. \<not> regex_space c) t = e"
    using assms(2) encode_plain unfolding e by (intro inserted_filter) auto
  then show ?thesis unfolding e by (rule decode_filtered)
qed



theorem decode_tolerates_whitespace_witness:
  "arrayBufferToBase64 [77, 97] = Inr (js ''TWE='')
   \<and> inserted (js ''TWE='') (js ''T W'' @ [10] @ js ''E'' @ [9, 10] @ js ''= '')
   \<and> base64ToArrayBuffer (js ''T W'' @ [10] @ js ''E'' @ [9, 10] @ js ''= '') = Inr [77, 97]"
proof -
  have a: "arrayBufferToBase64 [77, 97] = Inr (js ''TWE='')"
    by (simp add: arrayBufferToBase64_def btoa_def b64_char_def b64_alphabet_def js_def pad_char_def)
  have b: "inserted (js ''TWE='') (js ''T W'' @ [10] @ js ''E'' @ [9, 10] @ js ''= '')"
    by (simp add: js_def wrap_space_def)
  show ?thesis using a b decode_tolerates_whitespace[OF a b] by simp
qed

subsection \<open>The exclusion matcher\<close>

lemmas char_defs = star_def dot_def slash_def caret_def dollar_def

lemma replace_star_Cons:
  "replace_star (c # r) = (if c = star then [dot, star] else [c]) @ replace_star r"
  by (simp add: replace_star_def)

lemma replace_star_no_leading_star: "replace_star r \<noteq> star # xs"
  by (cases r) (auto simp: replace_star_Cons replace_star_def char_defs)

lemma atom_of_plain: "\<not> syntax_char c \<Longrightarrow> atom_of c = Some (Lit c)"
  by (auto simp: atom_of_def syntax_char_def js_def dot_def)

lemma atom_of_dot: "atom_of dot = Some AnyChar"
  by (simp add: atom_of_def)

lemma dot_not_star: "dot \<noteq> star"
  by (simp add: char_defs)

lemma parse_plain:
  "plain_rule r \<Longrightarrow> parse_items (replace_star r) = Some (items_of r)"
proof (induction r)
  case Nil
  then show ?case by (simp add: replace_star_def items_of_def)
next
  case (Cons c r)
  from Cons.prems have pr: "plain_rule r" and c: "c = star \<or> \<not> syntax_char c"
    by (simp_all add: plain_rule_def)
  have ih: "parse_items (replace_star r) = Some (items_of r)" using Cons.IH pr by simp
  show ?case
  proof (cases "c = star")
    case True
    then show ?thesis
      by (simp add: replace_star_Cons atom_of_dot ih items_of_def)
  next
    case False
    with c have a: "atom_of c = Some (Lit c)" by (simp add: atom_of_plain)
    show ?thesis
    proof (cases "replace_star r")
      case Nil
      with ih have "items_of r = []" by simp
      with Nil False a show ?thesis by (simp add: replace_star_Cons items_of_def)
    next
      case (Cons d rest)
      with replace_star_no_leading_star[of r rest] have "d \<noteq> star" by auto
      with Cons False a ih show ?thesis by (simp add: replace_star_Cons items_of_def)
    qed
  qed
qed

lemma RegExp_plain:
  "plain_rule r \<Longrightarrow> RegExp (caret # replace_star r @ [dollar]) = Inr (items_of r)"
  by (simp add: RegExp_def parse_plain butlast_append)

lemma matches_items_of:
  "single_line p \<Longrightarrow> matches (items_of r) p = wildcard_match r p"
proof (induction r p rule: wildcard_match.induct)
  case (1 s)
  then show ?case by (simp add: items_of_def)
next
  case (2 r rule)
  then show ?case by (simp add: items_of_def single_line_def)
next
  case (3 r rule c s)
  from "3.prems" have sl: "single_line s" "single_line (c # s)" "\<not> line_terminator c"
    by (simp_all add: single_line_def)
  show ?case
  proof (cases "r = star")
    case True
    with 3 sl show ?thesis by (simp add: items_of_def)
  next
    case False
    with 3 sl show ?thesis by (auto simp add: items_of_def)
  qed
qed

lemma isExcluded_plain:
  "list_all plain_rule R \<Longrightarrow> single_line P \<Longrightarrow> isExcluded R P = Inr (spec_isExcluded R P)"
proof (induction R)
  case Nil
  then show ?case by (simp add: spec_isExcluded_def)
next
  case (Cons r R)
  then show ?case
    by (auto simp: RegExp_plain test_def matches_items_of spec_isExcluded_def)
qed

lemma isExcluded_scenario:
  "map (isExcluded [js ''.git'']) [js ''.git'', js ''.git/config'', js ''.gitignore'']
     = [Inr True, Inr True, Inr False]"
  by (simp add: js_def RegExp_def replace_star_def char_defs
      atom_of_def syntax_char_def test_def startsWith_def line_terminator_def)

text \<open>
  C2. The claim: \<open>isExcluded P\<close> is true if and only if \<open>P\<close> equals some rule, is
  nested under some rule, or matches some rule's pattern in which each star stands for
  zero or more of any character, anchored at both ends. The code differs at two inputs.
  With the built-in rules, the path \<open>agit\<close> is excluded by the code (the dot of the rule
  \<open>.git\<close> reaches the engine unescaped and accepts any character) and not by the claim;
  with the rule \<open>a*\<close>, the path \<open>a\<close>, newline, \<open>b\<close> is excluded by the claim and
  not by the code (the engine's dot star stops at a line terminator). Lemma
  \<open>isExcluded_plain\<close> above is the agreement of the two on rules without such characters
  and paths without line terminators.
\<close>

theorem isExcluded_differs_from_wildcard_match:
  "isExcluded DEFAULT_EXCLUDES (js ''agit'') = Inr True
   \<and> \<not> spec_isExcluded DEFAULT_EXCLUDES (js ''agit'')
   \<and> isExcluded [js ''a*''] (js ''a'' @ [10] @ js ''b'') = Inr False
   \<and> spec_isExcluded [js ''a*''] (js ''a'' @ [10] @ js ''b'')"
  by (simp add: DEFAULT_EXCLUDES_def js_def RegExp_def replace_star_def char_defs
      atom_of_def syntax_char_def test_def startsWith_def spec_isExcluded_def line_terminator_def)

subsection \<open>Footprints\<close>

lemma new_calls_self: "new_calls w w = []"
  by (simp add: new_calls_def)

lemma new_calls_append: "calls w' = calls w @ new \<Longrightarrow> new_calls w w' = new"
  by (simp add: new_calls_def)

lemma footprintI:
  assumes "calls w' = calls w @ new"
    and "\<And>p. remote w' p \<noteq> remote w p \<Longrightarrow> Some p \<in> writes_remote ` set new"
    and "\<And>p. remote w p \<noteq> None \<Longrightarrow> remote w' p = None \<Longrightarrow> Some p \<in> deletes_remote ` set new"
    and "\<And>p. files w' p \<noteq> files w p \<Longrightarrow> Some p \<in> writes_local ` set new"
    and "\<And>p. files w p \<noteq> None \<Longrightarrow> files w' p \<noteq> None"
    and "blob_sha w' = blob_sha w" "tree w' = tree w" "vault w' = vault w"
  shows "footprint w w'"
  unfolding footprint_def new_calls_append[OF assms(1)]
  using assms by blast

lemma footprint_refl: "footprint w w"
  by (rule footprintI[where new = "[]"]) simp_all

lemma footprint_calls: "footprint w w' \<Longrightarrow> calls w' = calls w @ new_calls w w'"
  by (simp add: footprint_def)

lemma new_calls_trans:
  assumes "footprint w w1" "footprint w1 w2"
  shows "new_calls w w2 = new_calls w w1 @ new_calls w1 w2"
proof -
  have "calls w2 = calls w @ (new_calls w w1 @ new_calls w1 w2)"
    using footprint_calls[OF assms(1)] footprint_calls[OF assms(2)] by simp
  then show ?thesis by (rule new_calls_append)
qed

lemma footprint_remoteD:
  "footprint w w' \<Longrightarrow> remote w' p \<noteq> remote w p \<Longrightarrow> Some p \<in> writes_remote ` set (new_calls w w')"
  by (simp add: footprint_def)

lemma footprint_deleteD:
  "footprint w w' \<Longrightarrow> remote w p \<noteq> None \<Longrightarrow> remote w' p = None
    \<Longrightarrow> Some p \<in> deletes_remote ` set (new_calls w w')"
  by (simp add: footprint_def)

lemma footprint_filesD:
  "footprint w w' \<Longrightarrow> files w' p \<noteq> files w p \<Longrightarrow> Some p \<in> writes_local ` set (new_calls w w')"
  by (simp add: footprint_def)

lemma footprint_files_stay:
  "footprint w w' \<Longrightarrow> files w p \<noteq> None \<Longrightarrow> files w' p \<noteq> None"
  by (simp add: footprint_def)

lemma footprint_fixed:
  "footprint w w' \<Longrightarrow> blob_sha w' = blob_sha w \<and> tree w' = tree w \<and> vault w' = vault w"
  by (simp add: footprint_def)

lemma footprint_trans:
  assumes a: "footprint w w1" and b: "footprint w1 w2"
  shows "footprint w w2"
proof (rule footprintI[where new = "new_calls w w1 @ new_calls w1 w2"])
  show "calls w2 = calls w @ new_calls w w1 @ new_calls w1 w2"
    using footprint_calls[OF a] footprint_calls[OF b] by simp
next
  fix p assume d: "remote w2 p \<noteq> remote w p"
  show "Some p \<in> writes_remote ` set (new_calls w w1 @ new_calls w1 w2)"
  proof (cases "remote w1 p = remote w p")
    case True
    with d have "remote w2 p \<noteq> remote w1 p" by simp
    from footprint_remoteD[OF b this] show ?thesis by auto
  next
    case False
    from footprint_remoteD[OF a this] show ?thesis by auto
  qed
next
  fix p assume d: "remote w p \<noteq> None" "remote w2 p = None"
  show "Some p \<in> deletes_remote ` set (new_calls w w1 @ new_calls w1 w2)"
  proof (cases "remote w1 p = None")
    case True
    from footprint_deleteD[OF a d(1) True] show ?thesis by auto
  next
    case False
    from footprint_deleteD[OF b False d(2)] show ?thesis by auto
  qed
next
  fix p assume d: "files w2 p \<noteq> files w p"
  show "Some p \<in> writes_local ` set (new_calls w w1 @ new_calls w1 w2)"
  proof (cases "files w1 p = files w p")
    case True
    with d have "files w2 p \<noteq> files w1 p" by simp
    from footprint_filesD[OF b this] show ?thesis by auto
  next
    case False
    from footprint_filesD[OF a this] show ?thesis by auto
  qed
next
  fix p assume "files w p \<noteq> None"
  then show "files w2 p \<noteq> None"
    using footprint_files_stay[OF a] footprint_files_stay[OF b] by blast
qed (use footprint_fixed[OF a] footprint_fixed[OF b] in simp_all)

lemma keepsI:
  "(\<And>w. footprint w (snd (m w))) \<Longrightarrow> (\<And>w. list_all Q (new_calls w (snd (m w)))) \<Longrightarrow> keeps Q m"
  by (simp add: keeps_def)

lemma keepsD:
  "keeps Q m \<Longrightarrow> footprint w (snd (m w))"
  "keeps Q m \<Longrightarrow> list_all Q (new_calls w (snd (m w)))"
  by (simp_all add: keeps_def)

lemma keeps_ret: "keeps Q (ret x)"
  by (simp add: keeps_def ret_def footprint_refl new_calls_self)

lemma keeps_lift: "keeps Q (lift r)"
  by (simp add: keeps_def lift_def footprint_refl new_calls_self)

lemma keeps_await:
  assumes m: "keeps Q m" and f: "\<And>x. keeps Q (f x)"
  shows "keeps Q (await m f)"
proof (rule keepsI)
  fix w
  obtain r w1 where mw: "m w = (r, w1)" by (cases "m w")
  have f1: "footprint w w1" and q1: "list_all Q (new_calls w w1)"
    using keepsD[OF m, of w] mw by simp_all
  show "footprint w (snd (await m f w))"
  proof (cases r)
    case (Inl e)
    then show ?thesis using mw f1 by (simp add: await_def)
  next
    case (Inr x)
    have "footprint w1 (snd (f x w1))" using keepsD(1)[OF f] .
    with f1 have "footprint w (snd (f x w1))" by (rule footprint_trans)
    then show ?thesis using mw Inr by (simp add: await_def)
  qed
  show "list_all Q (new_calls w (snd (await m f w)))"
  proof (cases r)
    case (Inl e)
    then show ?thesis using mw q1 by (simp add: await_def)
  next
    case (Inr x)
    have f2: "footprint w1 (snd (f x w1))" and q2: "list_all Q (new_calls w1 (snd (f x w1)))"
      using keepsD[OF f] by blast+
    have "new_calls w (snd (f x w1)) = new_calls w w1 @ new_calls w1 (snd (f x w1))"
      using f1 f2 by (rule new_calls_trans)
    with q1 q2 show ?thesis using mw Inr by (simp add: await_def)
  qed
qed

lemma keeps_try_catch:
  assumes m: "keeps Q m" and h: "\<And>e. keeps Q (h e)"
  shows "keeps Q (try_catch m h)"
proof (rule keepsI)
  fix w
  obtain r w1 where mw: "m w = (r, w1)" by (cases "m w")
  have f1: "footprint w w1" and q1: "list_all Q (new_calls w w1)"
    using keepsD[OF m, of w] mw by simp_all
  show "footprint w (snd (try_catch m h w))"
  proof (cases r)
    case (Inr x)
    then show ?thesis using mw f1 by (simp add: try_catch_def)
  next
    case (Inl e)
    have "footprint w1 (snd (h e w1))" using keepsD(1)[OF h] .
    with f1 have "footprint w (snd (h e w1))" by (rule footprint_trans)
    then show ?thesis using mw Inl by (simp add: try_catch_def)
  qed
  show "list_all Q (new_calls w (snd (try_catch m h w)))"
  proof (cases r)
    case (Inr x)
    then show ?thesis using mw q1 by (simp add: try_catch_def)
  next
    case (Inl e)
    have f2: "footprint w1 (snd (h e w1))" and q2: "list_all Q (new_calls w1 (snd (h e w1)))"
      using keepsD[OF h] by blast+
    have "new_calls w (snd (h e w1)) = new_calls w w1 @ new_calls w1 (snd (h e w1))"
      using f1 f2 by (rule new_calls_trans)
    with q1 q2 show ?thesis using mw Inl by (simp add: try_catch_def)
  qed
qed

lemma keeps_for_each:
  "(\<And>x. x \<in> set xs \<Longrightarrow> keeps Q (body x)) \<Longrightarrow> keeps Q (for_each xs body)"
  by (induction xs) (simp_all add: keeps_ret keeps_await)

lemma keeps_if: "keeps Q m \<Longrightarrow> keeps Q m' \<Longrightarrow> keeps Q (if b then m else m')"
  by simp

lemma keeps_effect_quiet:
  assumes "\<And>w. calls (f w) = calls w" "\<And>w. remote (f w) = remote w" "\<And>w. files (f w) = files w"
    "\<And>w. blob_sha (f w) = blob_sha w" "\<And>w. tree (f w) = tree w" "\<And>w. vault (f w) = vault w"
  shows "keeps Q (effect f)"
proof (rule keepsI)
  fix w
  have c: "calls (f w) = calls w @ []" using assms(1) by simp
  show "footprint w (snd (effect f w))"
    unfolding effect_def snd_conv
    by (rule footprintI[OF c]) (simp_all add: assms)
  show "list_all Q (new_calls w (snd (effect f w)))"
    by (simp add: effect_def new_calls_append[OF c])
qed

lemma keeps_addLog: "keeps Q (effect (addLog msg))"
  by (rule keeps_effect_quiet) (simp_all add: addLog_def Let_def)

lemma keeps_Notice: "keeps Q (effect (Notice n))"
  by (rule keeps_effect_quiet) (simp_all add: Notice_def)

lemma apiRequest_calls: "calls (snd (apiRequest r w)) = calls w @ [Request r]"
  by (cases r; cases "net_faults w")
     (auto simp: apiRequest_def take_fault_def Let_def split: option.splits)

lemma keeps_apiRequest:
  assumes "Q (Request r)"
  shows "keeps Q (apiRequest r)"
proof (rule keepsI)
  fix w
  note c = apiRequest_calls[of r w]
  show "footprint w (snd (apiRequest r w))"
  proof (rule footprintI[OF c])
    fix p assume "remote (snd (apiRequest r w)) p \<noteq> remote w p"
    then show "Some p \<in> writes_remote ` set [Request r]"
      by (cases r; cases "net_faults w")
         (auto simp: apiRequest_def take_fault_def Let_def split: option.splits if_splits)
  next
    fix p assume "remote w p \<noteq> None" "remote (snd (apiRequest r w)) p = None"
    then show "Some p \<in> deletes_remote ` set [Request r]"
      by (cases r; cases "net_faults w")
         (auto simp: apiRequest_def take_fault_def Let_def split: option.splits if_splits)
  next
    fix p assume "files (snd (apiRequest r w)) p \<noteq> files w p"
    then show "Some p \<in> writes_local ` set [Request r]"
      by (cases r; cases "net_faults w")
         (auto simp: apiRequest_def take_fault_def Let_def split: option.splits if_splits)
  next
    fix p assume "files w p \<noteq> None"
    then show "files (snd (apiRequest r w)) p \<noteq> None"
      by (cases r; cases "net_faults w")
         (auto simp: apiRequest_def take_fault_def Let_def split: option.splits if_splits)
  next
    show "blob_sha (snd (apiRequest r w)) = blob_sha w"
      by (cases r; cases "net_faults w")
         (auto simp: apiRequest_def take_fault_def Let_def split: option.splits if_splits)
    show "tree (snd (apiRequest r w)) = tree w"
      by (cases r; cases "net_faults w")
         (auto simp: apiRequest_def take_fault_def Let_def split: option.splits if_splits)
    show "vault (snd (apiRequest r w)) = vault w"
      by (cases r; cases "net_faults w")
         (auto simp: apiRequest_def take_fault_def Let_def split: option.splits if_splits)
  qed
  show "list_all Q (new_calls w (snd (apiRequest r w)))"
    using assms by (simp add: new_calls_append[OF c])
qed

lemma keeps_one_call:
  assumes c: "\<And>w. calls (snd (m w)) = calls w @ [e]"
    and "\<And>w p. remote (snd (m w)) p \<noteq> remote w p \<Longrightarrow> writes_remote e = Some p"
    and "\<And>w p. remote w p \<noteq> None \<Longrightarrow> remote (snd (m w)) p = None \<Longrightarrow> deletes_remote e = Some p"
    and "\<And>w p. files (snd (m w)) p \<noteq> files w p \<Longrightarrow> writes_local e = Some p"
    and "\<And>w p. files w p \<noteq> None \<Longrightarrow> files (snd (m w)) p \<noteq> None"
    and "\<And>w. blob_sha (snd (m w)) = blob_sha w" "\<And>w. tree (snd (m w)) = tree w"
      "\<And>w. vault (snd (m w)) = vault w"
    and q: "Q e"
  shows "keeps Q m"
proof (rule keepsI)
  fix w
  show "footprint w (snd (m w))"
  proof (rule footprintI[OF c])
    fix p assume "remote (snd (m w)) p \<noteq> remote w p"
    from assms(2)[OF this] show "Some p \<in> writes_remote ` set [e]" by simp
  next
    fix p assume "remote w p \<noteq> None" "remote (snd (m w)) p = None"
    from assms(3)[OF this] show "Some p \<in> deletes_remote ` set [e]" by simp
  next
    fix p assume "files (snd (m w)) p \<noteq> files w p"
    from assms(4)[OF this] show "Some p \<in> writes_local ` set [e]" by simp
  qed (simp_all add: assms)
  show "list_all Q (new_calls w (snd (m w)))"
    using q by (simp add: new_calls_append[OF c])
qed

lemmas adapter_defs = adapter_step_def take_fault_def Let_def

lemma keeps_readBinary: "Q (Adapter (ReadBinary p)) \<Longrightarrow> keeps Q (readBinary p)"
  by (rule keeps_one_call[where e = "Adapter (ReadBinary p)"])
     (auto simp: readBinary_def adapter_defs split: list.splits option.splits bool.splits if_splits)

lemma keeps_exists: "Q (Adapter (Exists p)) \<Longrightarrow> keeps Q (exists p)"
  by (rule keeps_one_call[where e = "Adapter (Exists p)"])
     (auto simp: exists_def adapter_defs split: list.splits option.splits bool.splits if_splits)

lemma keeps_mkdir: "Q (Adapter (Mkdir p)) \<Longrightarrow> keeps Q (mkdir p)"
  by (rule keeps_one_call[where e = "Adapter (Mkdir p)"])
     (auto simp: mkdir_def adapter_defs split: list.splits option.splits bool.splits if_splits)

lemma keeps_writeBinary: "Q (Adapter (WriteBinary p c)) \<Longrightarrow> keeps Q (writeBinary p c)"
  by (rule keeps_one_call[where e = "Adapter (WriteBinary p c)"])
     (auto simp: writeBinary_def adapter_defs split: list.splits option.splits bool.splits if_splits)

lemma keeps_list_dir: "Q (Adapter (ListDir p)) \<Longrightarrow> keeps Q (list_dir p d)"
  by (rule keeps_one_call[where e = "Adapter (ListDir p)"])
     (auto simp: list_dir_def adapter_defs split: list.splits option.splits bool.splits dir.splits if_splits)

lemma keeps_reader: "(\<And>v. keeps Q (m v)) \<Longrightarrow> keeps Q (\<lambda>w. m (g w) w)"
  by (simp add: keeps_def)

lemma keeps_uploadFile:
  "(\<And>c s. Q (Request (ContentsPut p c s))) \<Longrightarrow> keeps Q (uploadFile p content s)"
  unfolding uploadFile_def
  by (intro keeps_await keeps_lift keeps_apiRequest keeps_addLog)

lemma keeps_make_folders:
  assumes "\<And>c. Q (Adapter (Exists c))" "\<And>c. Q (Adapter (Mkdir c))"
  shows "keeps Q (make_folders cur parts)"
proof (induction parts arbitrary: cur)
  case Nil
  show ?case by (simp add: keeps_ret)
next
  case (Cons part parts)
  show ?case
    unfolding make_folders.simps Let_def
    by (intro keeps_await keeps_exists keeps_if keeps_ret keeps_mkdir Cons.IH assms)
qed

lemma keeps_downloadFile:
  assumes "Q (Request (ContentsGet p))" "\<And>c. Q (Adapter (Exists c))" "\<And>c. Q (Adapter (Mkdir c))"
    "\<And>c. Q (Adapter (WriteBinary p c))"
  shows "keeps Q (downloadFile p)"
  unfolding downloadFile_def Let_def
  by (intro keeps_try_catch keeps_await keeps_lift keeps_apiRequest keeps_if keeps_ret
      keeps_make_folders keeps_writeBinary keeps_addLog assms)

text \<open>The calls that a Merge may make, given the two sets it compares.\<close>

lemma keeps_executeMerge:
  assumes up: "\<And>p c s. p \<in> set localPaths \<Longrightarrow> p \<notin> path ` set remotes \<Longrightarrow> Q (Request (ContentsPut p c s))"
    and rd: "\<And>p. p \<in> set localPaths \<Longrightarrow> p \<notin> path ` set remotes \<Longrightarrow> Q (Adapter (ReadBinary p))"
    and get: "\<And>p. p \<in> path ` set remotes \<Longrightarrow> p \<notin> set localPaths \<Longrightarrow> Q (Request (ContentsGet p))"
    and wr: "\<And>p c. p \<in> path ` set remotes \<Longrightarrow> p \<notin> set localPaths \<Longrightarrow> Q (Adapter (WriteBinary p c))"
    and ex: "\<And>c. Q (Adapter (Exists c))" and mk: "\<And>c. Q (Adapter (Mkdir c))"
  shows "keeps Q (executeMerge st localPaths remotes)"
  unfolding executeMerge_def Let_def
proof (rule keeps_await)
  show "keeps Q (for_each localPaths (\<lambda>p. if find (\<lambda>r. path r = p) remotes = None
       then await (readBinary p) (\<lambda>content. uploadFile p content None) else ret ()))"
  proof (rule keeps_for_each)
    fix p assume p: "p \<in> set localPaths"
    show "keeps Q (if find (\<lambda>r. path r = p) remotes = None
         then await (readBinary p) (\<lambda>content. uploadFile p content None) else ret ())"
    proof (cases "find (\<lambda>r. path r = p) remotes = None")
      case True
      then have np: "p \<notin> path ` set remotes" by (auto simp: find_None_iff)
      show ?thesis unfolding if_P[OF True]
        by (intro keeps_await keeps_readBinary keeps_uploadFile up[OF p np] rd[OF p np])
    next
      case False
      show ?thesis unfolding if_not_P[OF False] by (rule keeps_ret)
    qed
  qed
next
  fix u :: unit
  show "keeps Q (for_each remotes (\<lambda>rFile.
          await (lift (isExcluded (excludedRules st) (path rFile)))
          (\<lambda>excluded. if excluded then ret ()
            else if path rFile \<notin> set localPaths then downloadFile (path rFile) else ret ())))"
  proof (rule keeps_for_each)
    fix rFile assume r: "rFile \<in> set remotes"
    show "keeps Q (await (lift (isExcluded (excludedRules st) (path rFile)))
          (\<lambda>excluded. if excluded then ret ()
            else if path rFile \<notin> set localPaths then downloadFile (path rFile) else ret ()))"
    proof (cases "path rFile \<in> set localPaths")
      case True
      then have n: "\<not> path rFile \<notin> set localPaths" by simp
      show ?thesis unfolding if_not_P[OF n]
        by (intro keeps_await keeps_lift keeps_if keeps_ret)
    next
      case False
      from r have i: "path rFile \<in> path ` set remotes" by simp
      show ?thesis unfolding if_P[OF False]
        by (intro keeps_await keeps_lift keeps_if keeps_ret keeps_downloadFile
            get[OF i False] wr[OF i False] ex mk)
    qed
  qed
qed

lemma ops_Nil: "ops [] = []"
  by (simp add: ops_def map_filter_simps)

lemma ops_Cons: "ops (e # es) = (case op_of e of None \<Rightarrow> ops es | Some x \<Rightarrow> x # ops es)"
  by (simp add: ops_def map_filter_simps split: option.splits)


lemma ops_mem: "x \<in> set (ops es) \<longleftrightarrow> (\<exists>e \<in> set es. op_of e = Some x)"
  by (induction es) (auto simp: ops_Nil ops_Cons split: option.splits)


lemma op_of_Delete: "op_of e = Some (Delete p s) \<Longrightarrow> deletes_remote e = Some p"
  by (cases e rule: op_of.cases) simp_all

lemma op_of_Upload: "op_of e = Some (Upload p s) \<Longrightarrow> writes_remote e = Some p"
  by (cases e rule: op_of.cases) simp_all

lemma op_of_Download: "op_of e = Some (Download p) \<Longrightarrow> e = Request (ContentsGet p)"
  by (cases e rule: op_of.cases) simp_all

lemma keeps_getAllFilesRecursively:
  assumes "\<And>c. Q (Adapter (ListDir c))"
  shows "keeps Q (getAllFilesRecursively st p d)" and "keeps Q (visit_folders st ds)"
proof (induction st p d and st ds rule: getAllFilesRecursively_visit_folders.induct)
  case (1 st p fs ds)
  show ?case unfolding getAllFilesRecursively.simps
    by (intro keeps_await keeps_list_dir keeps_lift keeps_ret assms "1.IH")
next
  case (2 st)
  show ?case by (simp add: keeps_ret)
next
  case (3 st dirPath d rest)
  have a: "keeps Q (getAllFilesRecursively st dirPath d)"
    using "3.IH"(1)[of False] by simp
  show ?case unfolding visit_folders.simps
    by (intro keeps_await keeps_lift keeps_if keeps_ret a "3.IH"(2))
qed

lemma sync_as_io: "sync st mode w = snd (sync_io st mode w)"
  by (simp add: sync_def sync_io_def effect_def await_def)

lemma keeps_sync_try:
  assumes "\<And>localFilePaths remoteFiles. keeps Q (run_mode st mode localFilePaths remoteFiles)"
    and "Q (Request TreeGet)" "\<And>c. Q (Adapter (ListDir c))"
  shows "keeps Q (sync_try st mode)"
  unfolding sync_try_def Let_def
proof (rule keeps_await)
  show "keeps Q (apiRequest TreeGet)"
    using assms(2) by (rule keeps_apiRequest)
next
  fix treeRes
  let ?rest = "\<lambda>v. await (getAllFilesRecursively st [] v) (\<lambda>localFilePaths.
     await (run_mode st mode localFilePaths
              (filter (\<lambda>i. type i = js ''blob'') (tree_of treeRes))) (\<lambda>_.
     await (effect (addLog LogDone)) (\<lambda>_. effect (Notice SyncDone))))"
  have "keeps Q (?rest v)" for v
    by (intro keeps_await keeps_getAllFilesRecursively keeps_addLog keeps_Notice assms)
  then show "keeps Q (\<lambda>w. ?rest (vault w) w)"
    by (simp add: keeps_def)
qed

lemma keeps_sync_io:
  assumes "\<And>localFilePaths remoteFiles. keeps Q (run_mode st mode localFilePaths remoteFiles)"
    and "Q (Request TreeGet)" "\<And>c. Q (Adapter (ListDir c))"
  shows "keeps Q (sync_io st mode)"
  unfolding sync_io_def
  by (intro keeps_if keeps_await keeps_try_catch keeps_addLog keeps_Notice keeps_sync_try assms)

lemma run_mode_merge: "run_mode st (js ''merge'') l r = executeMerge st l r"
  by (simp add: run_mode_def js_def)

subsection \<open>Merge neither deletes nor overwrites\<close>

lemma no_delete_frame:
  assumes f: "footprint w w'" and q: "list_all (\<lambda>e. deletes_remote e = None) (new_calls w w')"
  shows "Delete p s \<notin> set (ops (new_calls w w'))"
    and "dom (remote w) \<subseteq> dom (remote w')"
    and "dom (files w) \<subseteq> dom (files w')"
proof -
  have none: "Some x \<notin> deletes_remote ` set (new_calls w w')" for x
    using q by (auto simp: list_all_iff)
  show "Delete p s \<notin> set (ops (new_calls w w'))"
  proof
    assume "Delete p s \<in> set (ops (new_calls w w'))"
    then obtain e where "e \<in> set (new_calls w w')" "op_of e = Some (Delete p s)"
      unfolding ops_mem by blast
    then have "Some p \<in> deletes_remote ` set (new_calls w w')"
      using op_of_Delete[of e p s] by (metis image_eqI)
    with none show False by blast
  qed
  show "dom (remote w) \<subseteq> dom (remote w')"
  proof
    fix x assume "x \<in> dom (remote w)"
    then have "remote w x \<noteq> None" by auto
    then have "remote w' x \<noteq> None" using footprint_deleteD[OF f, of x] none by blast
    then show "x \<in> dom (remote w')" by auto
  qed
  show "dom (files w) \<subseteq> dom (files w')"
    using footprint_files_stay[OF f] by auto
qed

lemma keeps_merge_no_delete:
  "keeps (\<lambda>e. deletes_remote e = None) (executeMerge st localPaths remotes)"
  by (rule keeps_executeMerge) simp_all

text \<open>
  C7. A Merge run never issues a delete operation on either side: no delete is among
  its transfer operations, every remote path present before the run is present after
  it, and every local path present before the run is present after it. This holds for
  the strategy from any two sets and any world, and for a whole invocation of \<open>sync\<close>
  with the mode \<^verbatim>\<open>merge\<close>, whatever fails on the way.
\<close>

theorem merge_never_deletes:
  "Delete p s \<notin> set (ops (new_calls w (snd (executeMerge st localPaths remotes w))))
   \<and> dom (remote w) \<subseteq> dom (remote (snd (executeMerge st localPaths remotes w)))
   \<and> dom (files w) \<subseteq> dom (files (snd (executeMerge st localPaths remotes w)))
   \<and> Delete p s \<notin> set (ops (new_calls w (sync st (js ''merge'') w)))
   \<and> dom (remote w) \<subseteq> dom (remote (sync st (js ''merge'') w))
   \<and> dom (files w) \<subseteq> dom (files (sync st (js ''merge'') w))"
proof -
  let ?Q = "\<lambda>e. deletes_remote e = None"
  have a: "keeps ?Q (executeMerge st localPaths remotes)"
    by (rule keeps_merge_no_delete)
  have b: "keeps ?Q (sync_io st (js ''merge''))"
    by (rule keeps_sync_io) (simp_all add: run_mode_merge keeps_merge_no_delete)
  note ra = no_delete_frame[OF keepsD[OF a, of w]]
  note rb = no_delete_frame[OF keepsD[OF b, of w], folded sync_as_io]
  show ?thesis using ra rb by blast
qed

text \<open>
  C6. For every path \<open>P\<close> present in both the local path set and the remote entry set
  before a Merge run, the run neither uploads nor downloads \<open>P\<close>, and the local content
  and the remote blob of \<open>P\<close> are after the run what they were before.
\<close>

theorem merge_never_overwrites:
  assumes "P \<in> set localPaths" and "P \<in> path ` set remotes"
  shows "Upload P s \<notin> set (ops (new_calls w (snd (executeMerge st localPaths remotes w))))
   \<and> Download P \<notin> set (ops (new_calls w (snd (executeMerge st localPaths remotes w))))
   \<and> files (snd (executeMerge st localPaths remotes w)) P = files w P
   \<and> remote (snd (executeMerge st localPaths remotes w)) P = remote w P"
proof -
  let ?Q = "\<lambda>e. writes_remote e \<noteq> Some P \<and> writes_local e \<noteq> Some P \<and> e \<noteq> Request (ContentsGet P)"
  let ?w = "snd (executeMerge st localPaths remotes w)"
  have k: "keeps ?Q (executeMerge st localPaths remotes)"
    by (rule keeps_executeMerge) (use assms in auto)
  note f = keepsD(1)[OF k, of w]
  have q: "\<And>e. e \<in> set (new_calls w ?w) \<Longrightarrow> ?Q e"
    using keepsD(2)[OF k, of w] by (simp add: list_all_iff)
  have u: "Upload P s \<notin> set (ops (new_calls w ?w))"
  proof
    assume "Upload P s \<in> set (ops (new_calls w ?w))"
    then obtain e where e: "e \<in> set (new_calls w ?w)" "op_of e = Some (Upload P s)"
      unfolding ops_mem by blast
    from q[OF e(1)] op_of_Upload[OF e(2)] show False by simp
  qed
  have d: "Download P \<notin> set (ops (new_calls w ?w))"
  proof
    assume "Download P \<in> set (ops (new_calls w ?w))"
    then obtain e where e: "e \<in> set (new_calls w ?w)" "op_of e = Some (Download P)"
      unfolding ops_mem by blast
    from q[OF e(1)] op_of_Download[OF e(2)] show False by simp
  qed
  have l: "files ?w P = files w P"
  proof (rule ccontr)
    assume "files ?w P \<noteq> files w P"
    from footprint_filesD[OF f this] obtain e where "e \<in> set (new_calls w ?w)"
      "writes_local e = Some P" by (metis imageE)
    with q show False by blast
  qed
  have r: "remote ?w P = remote w P"
  proof (rule ccontr)
    assume "remote ?w P \<noteq> remote w P"
    from footprint_remoteD[OF f this] obtain e where "e \<in> set (new_calls w ?w)"
      "writes_remote e = Some P" by (metis imageE)
    with q show False by blast
  qed
  from u d l r show ?thesis by blast
qed

text \<open>Facts for evaluating a run on a concrete world.\<close>

lemmas run_defs = await_def try_catch_def ret_def lift_def effect_def
  apiRequest_def readBinary_def list_dir_def adapter_step_def take_fault_def addLog_def Notice_def

lemma github_decode_encode: "github_decode (b64_encode c) = Some c"
  by (simp add: github_decode_def atob_encode ucast_byte_roundtrip comp_def)

lemmas scenario_defs = scenario_settings_def scenario_local_def scenario_remote_def
  scenario_world_def

theorem merge_never_overwrites_witness:
  "js ''notes/a.md'' \<in> set scenario_local
   \<and> js ''notes/a.md'' \<in> path ` set scenario_remote
   \<and> Upload (js ''notes/a.md'') None \<notin> set (ops (new_calls scenario_world
        (snd (executeMerge scenario_settings scenario_local scenario_remote scenario_world))))
   \<and> Download (js ''notes/a.md'') \<notin> set (ops (new_calls scenario_world
        (snd (executeMerge scenario_settings scenario_local scenario_remote scenario_world))))
   \<and> files (snd (executeMerge scenario_settings scenario_local scenario_remote scenario_world))
        (js ''notes/a.md'') = Some [7]
   \<and> remote (snd (executeMerge scenario_settings scenario_local scenario_remote scenario_world))
        (js ''notes/a.md'') = Some [1]"
proof -
  have h1: "js ''notes/a.md'' \<in> set scenario_local" by (simp add: scenario_local_def)
  have h2: "js ''notes/a.md'' \<in> path ` set scenario_remote" by (simp add: scenario_remote_def)
  have f: "files scenario_world (js ''notes/a.md'') = Some [7]"
    "remote scenario_world (js ''notes/a.md'') = Some [1]"
    by (simp_all add: scenario_world_def js_def)
  from merge_never_overwrites[OF h1 h2, of None scenario_world scenario_settings] h1 h2 f
  show ?thesis by simp
qed

subsection \<open>Exact sequences of transfer operations\<close>







lemma encode_ok: "arrayBufferToBase64 c = Inr (b64_encode c)"
  by (simp add: arrayBufferToBase64_def btoa_bytes)



subsection \<open>LocalToRemote\<close>















subsection \<open>RemoteToLocal\<close>












lemma calm_refl: "disk_faults w = [] \<Longrightarrow> calm w w"
  by (simp add: calm_def)




lemma wrap60_filter:
  "(\<And>c. c \<in> set s \<Longrightarrow> \<not> regex_space c) \<Longrightarrow> filter (\<lambda>c. \<not> regex_space c) (wrap60 s) = s"
proof (induction s rule: wrap60.induct)
  case (1 s)
  have nl: "regex_space 10" by (simp add: regex_space_def)
  show ?case
  proof (cases "length s \<le> 60")
    case True
    then have "wrap60 s = s @ [10]" by (simp add: wrap60.simps)
    then show ?thesis using "1.prems" nl by (simp add: filter_id_conv)
  next
    case False
    then have w: "wrap60 s = take 60 s @ [10] @ wrap60 (drop 60 s)"
      by (subst wrap60.simps) simp
    have a: "filter (\<lambda>c. \<not> regex_space c) (take 60 s) = take 60 s"
      using "1.prems" by (auto simp: filter_id_conv dest: in_set_takeD)
    have b: "filter (\<lambda>c. \<not> regex_space c) (wrap60 (drop 60 s)) = drop 60 s"
      using "1.IH"[OF False] "1.prems" by (auto dest: in_set_dropD)
    show ?thesis unfolding w using a b nl by simp
  qed
qed

lemma decode_github: "base64ToArrayBuffer (github_encode c) = Inr c"
  unfolding github_encode_def
  by (rule decode_filtered) (use encode_plain in \<open>auto intro: wrap60_filter\<close>)







subsection \<open>The entry point\<close>

text \<open>
  C8. For every mode, if the token or the repository identifier of the configuration is
  the empty string, an invocation of \<open>sync\<close> returns at once: it makes no call at all
  (no tree listing, no enumeration of the vault, no transfer), leaves the remote, the
  vault and the log as they are, and only shows a notice.
\<close>

theorem sync_without_configuration:
  assumes "token st = [] \<or> repo st = []"
  shows "sync st mode w = Notice CheckConfig w
    \<and> new_calls w (sync st mode w) = []
    \<and> remote (sync st mode w) = remote w
    \<and> files (sync st mode w) = files w
    \<and> folders (sync st mode w) = folders w
    \<and> logs (sync st mode w) = logs w"
  using assms by (simp add: sync_def Notice_def new_calls_def)

theorem sync_without_configuration_witness:
  "(token (scenario_settings\<lparr>token := []\<rparr>) = [] \<or> repo (scenario_settings\<lparr>token := []\<rparr>) = [])
   \<and> new_calls scenario_world
        (sync (scenario_settings\<lparr>token := []\<rparr>) (js ''local_to_remote'') scenario_world) = []
   \<and> remote (sync (scenario_settings\<lparr>token := []\<rparr>) (js ''local_to_remote'') scenario_world)
        = remote scenario_world
   \<and> files (sync (scenario_settings\<lparr>token := []\<rparr>) (js ''local_to_remote'') scenario_world)
        = files scenario_world
   \<and> notices (sync (scenario_settings\<lparr>token := []\<rparr>) (js ''local_to_remote'') scenario_world)
        = [CheckConfig]"
proof -
  have h: "token (scenario_settings\<lparr>token := []\<rparr>) = [] \<or> repo (scenario_settings\<lparr>token := []\<rparr>) = []"
    by simp
  have n: "notices (Notice CheckConfig scenario_world) = [CheckConfig]"
    by (simp add: Notice_def scenario_world_def)
  from sync_without_configuration[OF h, of "js ''local_to_remote''" scenario_world] h n
  show ?thesis by (simp add: Notice_def new_calls_def)
qed

text \<open>
  C10. For every mode string other than \<^verbatim>\<open>local_to_remote\<close> and \<^verbatim>\<open>remote_to_local\<close>, the
  choice of the strategy is \<open>executeMerge\<close>, and an invocation of \<open>sync\<close> with a valid
  configuration does what an invocation with the mode \<^verbatim>\<open>merge\<close> does after the start
  line of the log (which prints the mode as given): the mode is never rejected.
\<close>

theorem unknown_mode_runs_merge:
  assumes "token st \<noteq> []" and "repo st \<noteq> []"
    and "mode \<noteq> js ''local_to_remote''" and "mode \<noteq> js ''remote_to_local''"
  shows "run_mode st mode localFilePaths remoteFiles = executeMerge st localFilePaths remoteFiles
    \<and> sync st mode w =
        snd (try_catch (sync_try st (js ''merge'')) (\<lambda>err. effect (addLog (LogError err)))
               (addLog (LogStart mode) w))"
proof -
  have m: "run_mode st mode l r = executeMerge st l r" for l r
    using assms(3,4) by (simp add: run_mode_def)
  have "sync_try st mode = sync_try st (js ''merge'')"
    unfolding sync_try_def m run_mode_merge ..
  then show ?thesis using assms(1,2) m by (simp add: sync_def)
qed

theorem unknown_mode_runs_merge_witness:
  "token scenario_settings \<noteq> [] \<and> repo scenario_settings \<noteq> []
   \<and> js ''mirror'' \<noteq> js ''local_to_remote'' \<and> js ''mirror'' \<noteq> js ''remote_to_local''
   \<and> run_mode scenario_settings (js ''mirror'') scenario_local scenario_remote
        = executeMerge scenario_settings scenario_local scenario_remote
   \<and> sync scenario_settings (js ''mirror'') scenario_world =
        snd (try_catch (sync_try scenario_settings (js ''merge''))
               (\<lambda>err. effect (addLog (LogError err)))
               (addLog (LogStart (js ''mirror'')) scenario_world))
   \<and> ops (new_calls scenario_world (sync scenario_settings (js ''mirror'') scenario_world))
        = [Upload (js ''notes/b.md'') None, Download (js ''notes/c.md'')]"
proof -
  have h: "token scenario_settings \<noteq> []" "repo scenario_settings \<noteq> []"
    "js ''mirror'' \<noteq> js ''local_to_remote''" "js ''mirror'' \<noteq> js ''remote_to_local''"
    by (simp_all add: scenario_settings_def js_def)
  note u = unknown_mode_runs_merge[OF h, of scenario_local scenario_remote scenario_world]
  have e: "ops (new_calls scenario_world
      (snd (try_catch (sync_try scenario_settings (js ''merge''))
               (\<lambda>err. effect (addLog (LogError err)))
               (addLog (LogStart (js ''mirror'')) scenario_world))))
        = [Upload (js ''notes/b.md'') None, Download (js ''notes/c.md'')]"
    by (simp add: sync_try_def run_mode_def executeMerge_def uploadFile_def
      downloadFile_def or_undefined_def tree_of_def content_of_def new_calls_def
      scenario_defs run_defs encode_ok github_decode_encode decode_github
      writeBinary_def exists_def mkdir_def js_def slash_def ops_Cons ops_Nil Let_def
      del: b64_encode.simps)
  from u h e show ?thesis by simp
qed

subsection \<open>A failing upload in a Merge run\<close>

text \<open>
  C1. The claim: in every strategy a failing transfer of one path is caught on its own
  and the remaining planned operations still run; in particular a failing upload does
  not abort a Merge run. In the scenario of the specification the Merge plan is the
  upload of \<^verbatim>\<open>notes/b.md\<close> and the download of \<^verbatim>\<open>notes/c.md\<close>. When the upload fails, the
  exception leaves \<open>executeMerge\<close> (\<open>uploadFile\<close> has no \<^verbatim>\<open>try\<close>), the run ends with an
  error line in the log, and the download is never requested. With the same fault
  LocalToRemote, whose upload is inside a \<^verbatim>\<open>try\<close>, goes on to its remaining operations.
\<close>

theorem merge_upload_failure_aborts_run:
  "ops (new_calls flaky_world (sync scenario_settings (js ''merge'') flaky_world))
     = [Upload (js ''notes/b.md'') None]
   \<and> logs (sync scenario_settings (js ''merge'') flaky_world)
     = [LogError HttpError, LogStart (js ''merge'')]
   \<and> ops (new_calls scenario_world (sync scenario_settings (js ''merge'') scenario_world))
     = [Upload (js ''notes/b.md'') None, Download (js ''notes/c.md'')]
   \<and> ops (new_calls flaky_world (sync scenario_settings (js ''local_to_remote'') flaky_world))
     = [Upload (js ''notes/a.md'') (Some (js ''tokenA'')), Upload (js ''notes/b.md'') None,
        Delete (js ''notes/c.md'') (js ''tokenC'')]"
  by (simp add: sync_def sync_try_def run_mode_def executeMerge_def executePush_def uploadFile_def
      downloadFile_def or_undefined_def tree_of_def content_of_def new_calls_def
      flaky_world_def scenario_defs run_defs encode_ok github_decode_encode decode_github
      writeBinary_def exists_def mkdir_def js_def slash_def ops_Cons ops_Nil Let_def
      del: b64_encode.simps)

text \<open>
  The read of a local file stands before the \<^verbatim>\<open>try\<close> in \<open>executePush\<close> (line 137): when
  it fails, LocalToRemote ends as well, before any transfer.
\<close>

lemma push_read_failure_aborts_run:
  "ops (new_calls (scenario_world\<lparr>disk_faults := [False, False, True]\<rparr>)
      (sync scenario_settings (js ''local_to_remote'')
         (scenario_world\<lparr>disk_faults := [False, False, True]\<rparr>))) = []
   \<and> logs (sync scenario_settings (js ''local_to_remote'')
         (scenario_world\<lparr>disk_faults := [False, False, True]\<rparr>))
     = [LogError StorageError, LogPushing, LogStart (js ''local_to_remote'')]"
  by (simp add: sync_def sync_try_def run_mode_def executePush_def
      tree_of_def new_calls_def scenario_defs run_defs js_def ops_Cons ops_Nil Let_def
      del: b64_encode.simps)

end
